theory Spec2Isabelle
  imports Main "HOL-Library.AList" "HOL-Library.Sublist"
begin

section \<open>JavaScript values and the JSON codec of the runtime\<close>

text \<open>
  The storage service of WordGotchi (\<^verbatim>\<open>frontend/src/services/StorageService.ts\<close>) keeps
  every record as JSON text in the browser's \<^verbatim>\<open>localStorage\<close>. What the service itself
  looks at in a value is its truthiness, its \<^verbatim>\<open>typeof\<close>, a handful of properties and
  \<^verbatim>\<open>Array.isArray\<close>; everything else is payload that is printed and read back.

  A value is therefore a member of the JSON data model. A number \<open>JNum m e\<close> stands for
  \<open>m / 10 ^ e\<close>, written with \<open>e\<close> digits after the decimal point (\<open>JNum 5 1\<close> is
  \<^verbatim>\<open>0.5\<close>); every finite double has such a form. \<^verbatim>\<open>NaN\<close>, the infinities,
  \<^verbatim>\<open>undefined\<close> and functions are not JSON values and are outside the model. An object
  is the list of its members in the order of the text.
\<close>

datatype jsval =
    JNull
  | JBool bool
  | JNum int nat
  | JStr string
  | JArr "jsval list"
  | JObj "(string \<times> jsval) list"

text \<open>Truthiness, as in \<^verbatim>\<open>if (x)\<close>, \<^verbatim>\<open>!x\<close> and \<^verbatim>\<open>x && y\<close>.\<close>

fun truthy :: "jsval \<Rightarrow> bool" where
  "truthy JNull = False"
| "truthy (JBool b) = b"
| "truthy (JNum m e) = (m \<noteq> 0)"
| "truthy (JStr s) = (s \<noteq> [])"
| "truthy (JArr xs) = True"
| "truthy (JObj kvs) = True"

text \<open>
  Property access \<^verbatim>\<open>state.name\<close>; \<open>None\<close> is \<^verbatim>\<open>undefined\<close>. When a text repeats a
  key, \<^verbatim>\<open>JSON.parse\<close> keeps the last value. None of the properties the service reads
  exists on a string, a number, a boolean or an array.
\<close>

fun js_get :: "jsval \<Rightarrow> string \<Rightarrow> jsval option" where
  "js_get (JObj kvs) k = map_of (rev kvs) k"
| "js_get v k = None"

fun typeof_string :: "jsval option \<Rightarrow> bool" where
  "typeof_string (Some (JStr s)) = True"
| "typeof_string v = False"

fun typeof_number :: "jsval option \<Rightarrow> bool" where
  "typeof_number (Some (JNum m e)) = True"
| "typeof_number v = False"

fun typeof_object :: "jsval option \<Rightarrow> bool" where
  "typeof_object (Some JNull) = True"
| "typeof_object (Some (JArr xs)) = True"
| "typeof_object (Some (JObj kvs)) = True"
| "typeof_object v = False"

text \<open>\<^verbatim>\<open>x === k\<close> for a number literal \<open>k\<close>.\<close>

fun strict_eq_num :: "jsval option \<Rightarrow> nat \<Rightarrow> bool" where
  "strict_eq_num (Some (JNum m e)) k = (m = int k * 10 ^ e)"
| "strict_eq_num v k = False"

fun truthy_opt :: "jsval option \<Rightarrow> bool" where
  "truthy_opt None = False"
| "truthy_opt (Some v) = truthy v"

subsection \<open>\<^verbatim>\<open>JSON.stringify\<close>\<close>

text \<open>
  \<^verbatim>\<open>JSON.stringify\<close> and \<^verbatim>\<open>JSON.parse\<close> belong to the JavaScript runtime, not to the
  repository. They are modelled by a printer that emits the compact form (no white space)
  and a reader for that grammar with insignificant white space allowed. Exponent notation
  and \<^verbatim>\<open>\u\<close> escapes are not read; the printer never emits them.
\<close>

definition digit_char :: "nat \<Rightarrow> char" where
  "digit_char d = ''0123456789'' ! d"

definition is_digit :: "char \<Rightarrow> bool" where
  "is_digit c \<longleftrightarrow> 48 \<le> (of_char c :: nat) \<and> (of_char c :: nat) \<le> 57"

definition digit_val :: "char \<Rightarrow> nat" where
  "digit_val c = of_char c - 48"

fun show_nat :: "nat \<Rightarrow> string" where
  "show_nat n = (if n < 10 then [digit_char n] else show_nat (n div 10) @ [digit_char (n mod 10)])"

declare show_nat.simps [simp del]

fun show_frac :: "nat \<Rightarrow> nat \<Rightarrow> string" where
  "show_frac 0 r = []"
| "show_frac (Suc e) r = show_frac e (r div 10) @ [digit_char (r mod 10)]"

definition show_num :: "int \<Rightarrow> nat \<Rightarrow> string" where
  "show_num m e =
     (if m < 0 then ''-'' else []) @ show_nat (nat \<bar>m\<bar> div 10 ^ e) @
     (if e = 0 then [] else CHR ''.'' # show_frac e (nat \<bar>m\<bar> mod 10 ^ e))"

fun escape :: "string \<Rightarrow> string" where
  "escape [] = []"
| "escape (c # cs) =
     (if c = CHR 0x22 \<or> c = CHR 0x5C then CHR 0x5C # c # escape cs else c # escape cs)"

definition show_str :: "string \<Rightarrow> string" where
  "show_str s = CHR 0x22 # escape s @ [CHR 0x22]"

fun commas :: "string list \<Rightarrow> string" where
  "commas [] = []"
| "commas [x] = x"
| "commas (x # y # zs) = x @ CHR '','' # commas (y # zs)"

fun JSON_stringify :: "jsval \<Rightarrow> string" where
  "JSON_stringify JNull = ''null''"
| "JSON_stringify (JBool b) = (if b then ''true'' else ''false'')"
| "JSON_stringify (JNum m e) = show_num m e"
| "JSON_stringify (JStr s) = show_str s"
| "JSON_stringify (JArr xs) = CHR ''['' # commas (map JSON_stringify xs) @ '']''"
| "JSON_stringify (JObj kvs) =
     CHR ''{'' # commas (map (\<lambda>kv. show_str (fst kv) @ CHR '':'' # JSON_stringify (snd kv)) kvs) @ ''}''"

subsection \<open>\<^verbatim>\<open>JSON.parse\<close>\<close>

definition is_ws :: "char \<Rightarrow> bool" where
  "is_ws c \<longleftrightarrow> c = CHR '' '' \<or> c = CHR 0x0A \<or> c = CHR 0x0D \<or> c = CHR 0x09"

definition skip_ws :: "string \<Rightarrow> string" where
  "skip_ws cs = dropWhile is_ws cs"

definition read_digits :: "string \<Rightarrow> nat" where
  "read_digits ds = foldl (\<lambda>a c. 10 * a + digit_val c) 0 ds"

definition mk_num :: "bool \<Rightarrow> string \<Rightarrow> string \<Rightarrow> jsval" where
  "mk_num neg ds fs =
     JNum ((if neg then - 1 else 1) * int (read_digits ds * 10 ^ length fs + read_digits fs))
          (length fs)"

definition parse_num :: "string \<Rightarrow> (jsval \<times> string) option" where
  "parse_num cs =
     (let neg = (cs \<noteq> [] \<and> hd cs = CHR ''-'');
          cs1 = (if neg then tl cs else cs);
          ds = takeWhile is_digit cs1;
          cs2 = dropWhile is_digit cs1
      in if ds = [] \<or> (1 < length ds \<and> hd ds = CHR ''0'') then None
         else if cs2 \<noteq> [] \<and> hd cs2 = CHR ''.'' then
           (let fs = takeWhile is_digit (tl cs2);
                cs3 = dropWhile is_digit (tl cs2)
            in if fs = [] then None else Some (mk_num neg ds fs, cs3))
         else Some (mk_num neg ds [], cs2))"

definition unescape :: "char \<Rightarrow> char option" where
  "unescape d =
     (if d = CHR 0x22 \<or> d = CHR 0x5C \<or> d = CHR ''/'' then Some d
      else if d = CHR ''n'' then Some (CHR 0x0A)
      else if d = CHR ''r'' then Some (CHR 0x0D)
      else if d = CHR ''t'' then Some (CHR 0x09)
      else if d = CHR ''b'' then Some (CHR 0x08)
      else if d = CHR ''f'' then Some (CHR 0x0C)
      else None)"

text \<open>The characters of a string literal after its opening quote, up to the closing one.\<close>

fun parse_str :: "string \<Rightarrow> (string \<times> string) option" where
  "parse_str [] = None"
| "parse_str [c] = (if c = CHR 0x22 then Some ([], []) else None)"
| "parse_str (c # d # cs) =
     (if c = CHR 0x22 then Some ([], d # cs)
      else if c = CHR 0x5C then
        (case unescape d of
           None \<Rightarrow> None
         | Some x \<Rightarrow> map_option (\<lambda>(s, r). (x # s, r)) (parse_str cs))
      else map_option (\<lambda>(s, r). (c # s, r)) (parse_str (d # cs)))"

text \<open>
  Recursive descent. The first argument bounds the number of nested calls; a call consumes
  at least one character, so the length of the text (plus one) is always enough and
  \<open>JSON_parse\<close> never fails for lack of it.
\<close>

fun parse_value :: "nat \<Rightarrow> string \<Rightarrow> (jsval \<times> string) option"
  and parse_elems :: "nat \<Rightarrow> string \<Rightarrow> (jsval list \<times> string) option"
  and parse_members :: "nat \<Rightarrow> string \<Rightarrow> ((string \<times> jsval) list \<times> string) option"
where
  "parse_value 0 cs = None"
| "parse_value (Suc n) cs =
     (let ts = skip_ws cs in
      if ts = [] then None
      else if hd ts = CHR ''n'' then
        (if take 4 ts = ''null'' then Some (JNull, drop 4 ts) else None)
      else if hd ts = CHR ''t'' then
        (if take 4 ts = ''true'' then Some (JBool True, drop 4 ts) else None)
      else if hd ts = CHR ''f'' then
        (if take 5 ts = ''false'' then Some (JBool False, drop 5 ts) else None)
      else if hd ts = CHR 0x22 then
        map_option (\<lambda>(s, r). (JStr s, r)) (parse_str (tl ts))
      else if hd ts = CHR ''['' then
        (let us = skip_ws (tl ts) in
         if us \<noteq> [] \<and> hd us = CHR '']'' then Some (JArr [], tl us)
         else map_option (\<lambda>(xs, r). (JArr xs, r)) (parse_elems n (tl ts)))
      else if hd ts = CHR ''{'' then
        (let us = skip_ws (tl ts) in
         if us \<noteq> [] \<and> hd us = CHR ''}'' then Some (JObj [], tl us)
         else map_option (\<lambda>(kvs, r). (JObj kvs, r)) (parse_members n (tl ts)))
      else parse_num ts)"
| "parse_elems 0 cs = None"
| "parse_elems (Suc n) cs =
     (case parse_value n cs of
        None \<Rightarrow> None
      | Some (v, r) \<Rightarrow>
          (let ts = skip_ws r in
           if ts = [] then None
           else if hd ts = CHR '','' then
             map_option (\<lambda>(vs, r'). (v # vs, r')) (parse_elems n (tl ts))
           else if hd ts = CHR '']'' then Some ([v], tl ts)
           else None))"
| "parse_members 0 cs = None"
| "parse_members (Suc n) cs =
     (let ts = skip_ws cs in
      if ts = [] \<or> hd ts \<noteq> CHR 0x22 then None
      else
        (case parse_str (tl ts) of
           None \<Rightarrow> None
         | Some (k, r1) \<Rightarrow>
             (let us = skip_ws r1 in
              if us = [] \<or> hd us \<noteq> CHR '':'' then None
              else
                (case parse_value n (tl us) of
                   None \<Rightarrow> None
                 | Some (v, r2) \<Rightarrow>
                     (let ws = skip_ws r2 in
                      if ws = [] then None
                      else if hd ws = CHR '','' then
                        map_option (\<lambda>(kvs, r'). ((k, v) # kvs, r')) (parse_members n (tl ws))
                      else if hd ws = CHR ''}'' then Some ([(k, v)], tl ws)
                      else None)))))"

text \<open>\<open>None\<close> is the \<^verbatim>\<open>SyntaxError\<close> that \<^verbatim>\<open>JSON.parse\<close> throws.\<close>

definition JSON_parse :: "string \<Rightarrow> jsval option" where
  "JSON_parse text =
     (case parse_value (Suc (length text)) text of
        None \<Rightarrow> None
      | Some (v, r) \<Rightarrow> if skip_ws r = [] then Some v else None)"


subsection \<open>Auxiliary notions for the round trip\<close>

text \<open>
  What may follow a value inside a JSON text, and what a value's text may start with.
\<close>

definition closes :: "string \<Rightarrow> bool" where
  "closes rest \<longleftrightarrow> rest = [] \<or> hd rest = CHR '','' \<or> hd rest = CHR '']'' \<or> hd rest = CHR ''}''"

definition opens :: "char \<Rightarrow> bool" where
  "opens c \<longleftrightarrow> \<not> is_ws c \<and> c \<noteq> CHR '']'' \<and> c \<noteq> CHR ''}''"

abbreviation show_member :: "string \<times> jsval \<Rightarrow> string" where
  "show_member kv \<equiv> show_str (fst kv) @ CHR '':'' # JSON_stringify (snd kv)"

section \<open>The storage service\<close>

subsection \<open>Constants\<close>

definition STORAGE_KEY_PREFIX :: string where
  "STORAGE_KEY_PREFIX = ''wordgotchi''"

definition GOTCHI_KEY :: string where
  "GOTCHI_KEY = STORAGE_KEY_PREFIX @ ''.gotchi''"

definition FEEDING_HISTORY_KEY :: string where
  "FEEDING_HISTORY_KEY = STORAGE_KEY_PREFIX @ ''.feedingHistory''"

definition EXPRESSIONS_KEY :: string where
  "EXPRESSIONS_KEY = STORAGE_KEY_PREFIX @ ''.expressions''"

definition MAX_FEEDING_RECORDS :: nat where
  "MAX_FEEDING_RECORDS = 1000"

definition MAX_EXPRESSIONS :: nat where
  "MAX_EXPRESSIONS = 500"

definition MAX_STORAGE_SIZE_BYTES :: nat where
  "MAX_STORAGE_SIZE_BYTES = 5 * 1024 * 1024"


definition testKey :: string where
  "testKey = ''__storage_test__''"

subsection \<open>The browser's \<^verbatim>\<open>localStorage\<close>\<close>

text \<open>
  \<^verbatim>\<open>localStorage\<close> is an ordered list of key/value pairs of strings (\<^verbatim>\<open>key(i)\<close>
  enumerates it). \<^verbatim>\<open>getItem\<close> and \<^verbatim>\<open>removeItem\<close> always succeed; \<^verbatim>\<open>setItem\<close> may throw.
  Whether it does is the browser's decision: a \<open>backing\<close> tells, for the present contents,
  a key and a value, which exception the write raises, if any. The service tells a
  \<^verbatim>\<open>QuotaExceededError\<close> from every other exception.
\<close>

datatype storage_error = QuotaExceededError | OtherError

type_synonym store = "(string \<times> string) list"

type_synonym backing = "store \<Rightarrow> string \<Rightarrow> string \<Rightarrow> storage_error option"

text \<open>
  The module-level variables of the service. A timer variable is \<open>True\<close> while a callback
  is scheduled and has not run.
\<close>

record memory_storage =
  gotchi :: "jsval option"
  feedingHistory :: "jsval list"
  expressions :: "jsval list"

record engine =
  localStorage :: store
  memoryOnlyMode :: bool
  memoryStorage :: memory_storage
  gotchiSaveTimer :: bool
  feedingSaveTimer :: bool
  expressionSaveTimer :: bool
  pendingGotchiState :: "jsval option"
  pendingFeedingRecords :: "jsval list"
  pendingExpressions :: "jsval list"

definition getItem :: "engine \<Rightarrow> string \<Rightarrow> string option" where
  "getItem st k = map_of (localStorage st) k"

definition setItem :: "backing \<Rightarrow> string \<Rightarrow> string \<Rightarrow> engine \<Rightarrow> storage_error + engine" where
  "setItem B k v st =
     (case B (localStorage st) k v of
        Some err \<Rightarrow> Inl err
      | None \<Rightarrow> Inr (st\<lparr>localStorage := AList.update k v (localStorage st)\<rparr>))"

definition removeItem :: "string \<Rightarrow> engine \<Rightarrow> engine" where
  "removeItem k st = st\<lparr>localStorage := AList.delete k (localStorage st)\<rparr>"

text \<open>
  \<^verbatim>\<open>xs.slice(-n)\<close> for a count \<open>n\<close>: the last \<open>n\<close> elements, all of them when there are
  fewer, and, since \<^verbatim>\<open>-0\<close> is \<^verbatim>\<open>0\<close>, the whole array when \<open>n\<close> is \<open>0\<close>.
\<close>

definition slice_neg :: "'a list \<Rightarrow> nat \<Rightarrow> 'a list" where
  "slice_neg xs n = (if n = 0 then xs else drop (length xs - n) xs)"

text \<open>
  \<^verbatim>\<open>Math.floor(n * 0.8)\<close>. The double nearest to 0.8 lies above 0.8 by less than
  \<open>2\<^sup>-\<^sup>5\<^sup>4\<close> of it, so for an array length \<open>n\<close> the rounded product is never below
  \<open>4n/5\<close> and never reaches the next integer: the floor is \<open>4n div 5\<close>.
\<close>

definition floor_80pct :: "nat \<Rightarrow> nat" where
  "floor_80pct n = (n * 4) div 5"

subsection \<open>Availability probe\<close>

definition isLocalStorageAvailable :: "backing \<Rightarrow> engine \<Rightarrow> bool \<times> engine" where
  "isLocalStorageAvailable B st =
     (if memoryOnlyMode st then (False, st)
      else
        (case setItem B testKey ''test'' st of
           Inr st1 \<Rightarrow> (True, removeItem testKey st1)
         | Inl err \<Rightarrow> (False, st\<lparr>memoryOnlyMode := True\<rparr>)))"

subsection \<open>Validation and loading\<close>

definition isValidGotchiState :: "jsval \<Rightarrow> bool" where
  "isValidGotchiState state \<longleftrightarrow>
     truthy state \<and>
     typeof_string (js_get state ''id'') \<and>
     (strict_eq_num (js_get state ''stage'') 1 \<or> strict_eq_num (js_get state ''stage'') 2) \<and>
     typeof_number (js_get state ''feedingCount'') \<and>
     truthy_opt (js_get state ''emotionVector'') \<and>
     typeof_object (js_get state ''emotionVector'') \<and>
     typeof_number (js_get state ''createdAt'')"

definition loadGotchi :: "backing \<Rightarrow> engine \<Rightarrow> jsval option \<times> engine" where
  "loadGotchi B st =
     (case isLocalStorageAvailable B st of
        (False, st1) \<Rightarrow> (gotchi (memoryStorage st1), st1)
      | (True, st1) \<Rightarrow>
          (case getItem st1 GOTCHI_KEY of
             None \<Rightarrow> (None, st1)
           | Some serialized \<Rightarrow>
               if serialized = [] then (None, st1)
               else
                 (case JSON_parse serialized of
                    None \<Rightarrow> (None, removeItem GOTCHI_KEY st1)
                  | Some state \<Rightarrow>
                      if \<not> isValidGotchiState state then (None, removeItem GOTCHI_KEY st1)
                      else (Some state, st1))))"

definition getFeedingHistory :: "backing \<Rightarrow> nat \<Rightarrow> engine \<Rightarrow> jsval list \<times> engine" where
  "getFeedingHistory B limit st =
     (case isLocalStorageAvailable B st of
        (False, st1) \<Rightarrow> (slice_neg (feedingHistory (memoryStorage st1)) limit, st1)
      | (True, st1) \<Rightarrow>
          (case getItem st1 FEEDING_HISTORY_KEY of
             None \<Rightarrow> ([], st1)
           | Some serialized \<Rightarrow>
               if serialized = [] then ([], st1)
               else
                 (case JSON_parse serialized of
                    None \<Rightarrow> ([], removeItem FEEDING_HISTORY_KEY st1)
                  | Some (JArr history) \<Rightarrow> (slice_neg history limit, st1)
                  | Some other \<Rightarrow> ([], removeItem FEEDING_HISTORY_KEY st1))))"

definition getExpressions :: "backing \<Rightarrow> nat \<Rightarrow> engine \<Rightarrow> jsval list \<times> engine" where
  "getExpressions B limit st =
     (case isLocalStorageAvailable B st of
        (False, st1) \<Rightarrow> (slice_neg (expressions (memoryStorage st1)) limit, st1)
      | (True, st1) \<Rightarrow>
          (case getItem st1 EXPRESSIONS_KEY of
             None \<Rightarrow> ([], st1)
           | Some serialized \<Rightarrow>
               if serialized = [] then ([], st1)
               else
                 (case JSON_parse serialized of
                    None \<Rightarrow> ([], removeItem EXPRESSIONS_KEY st1)
                  | Some (JArr exprs) \<Rightarrow> (slice_neg exprs limit, st1)
                  | Some other \<Rightarrow> ([], removeItem EXPRESSIONS_KEY st1))))"

subsection \<open>Size accounting, pruning and compression\<close>

definition entry_size :: "string \<times> string \<Rightarrow> nat" where
  "entry_size kv =
     (if fst kv \<noteq> [] \<and> take (length STORAGE_KEY_PREFIX) (fst kv) = STORAGE_KEY_PREFIX
         \<and> snd kv \<noteq> []
      then length (fst kv) * 2 + length (snd kv) * 2 else 0)"

definition checkStorageSize :: "backing \<Rightarrow> engine \<Rightarrow> nat \<times> engine" where
  "checkStorageSize B st =
     (case isLocalStorageAvailable B st of
        (False, st1) \<Rightarrow> (0, st1)
      | (True, st1) \<Rightarrow> (sum_list (map entry_size (localStorage st1)), st1))"

definition isMemoryOnlyMode :: "engine \<Rightarrow> bool" where
  "isMemoryOnlyMode st = memoryOnlyMode st"

definition pruneOldData :: "backing \<Rightarrow> engine \<Rightarrow> engine" where
  "pruneOldData B st =
     (case isLocalStorageAvailable B st of
        (False, st1) \<Rightarrow>
          (let m = memoryStorage st1;
               keepFeedingCount = floor_80pct (length (feedingHistory m));
               m1 = m\<lparr>feedingHistory := slice_neg (feedingHistory m) keepFeedingCount\<rparr>;
               keepExpressionCount = floor_80pct (length (expressions m1));
               m2 = m1\<lparr>expressions := slice_neg (expressions m1) keepExpressionCount\<rparr>
           in st1\<lparr>memoryStorage := m2\<rparr>)
      | (True, st1) \<Rightarrow>
          (case getFeedingHistory B MAX_FEEDING_RECORDS st1 of
             (history, st2) \<Rightarrow>
               (let keepFeedingCount = floor_80pct (length history);
                    prunedFeeding = slice_neg history keepFeedingCount
                in case setItem B FEEDING_HISTORY_KEY (JSON_stringify (JArr prunedFeeding)) st2 of
                     Inl err \<Rightarrow> st2
                   | Inr st3 \<Rightarrow>
                       (case getExpressions B MAX_EXPRESSIONS st3 of
                          (exprs, st4) \<Rightarrow>
                            (let keepExpressionCount = floor_80pct (length exprs);
                                 prunedExpressions = slice_neg exprs keepExpressionCount
                             in case setItem B EXPRESSIONS_KEY
                                       (JSON_stringify (JArr prunedExpressions)) st4 of
                                  Inl err \<Rightarrow> st4
                                | Inr st5 \<Rightarrow> st5)))))"

definition compressStoredData :: "backing \<Rightarrow> engine \<Rightarrow> engine" where
  "compressStoredData B st =
     (case isLocalStorageAvailable B st of
        (False, st1) \<Rightarrow> st1
      | (True, st1) \<Rightarrow>
          (case getFeedingHistory B MAX_FEEDING_RECORDS st1 of
             (history, st2) \<Rightarrow>
               (case (if 0 < length history
                      then setItem B FEEDING_HISTORY_KEY (JSON_stringify (JArr history)) st2
                      else Inr st2) of
                  Inl err \<Rightarrow> st2
                | Inr st3 \<Rightarrow>
                    (case getExpressions B MAX_EXPRESSIONS st3 of
                       (exprs, st4) \<Rightarrow>
                         (case (if 0 < length exprs
                                then setItem B EXPRESSIONS_KEY (JSON_stringify (JArr exprs)) st4
                                else Inr st4) of
                            Inl err \<Rightarrow> st4
                          | Inr st5 \<Rightarrow>
                              (case loadGotchi B st5 of
                                 (None, st6) \<Rightarrow> st6
                               | (Some g, st6) \<Rightarrow>
                                   if truthy g then
                                     (case setItem B GOTCHI_KEY (JSON_stringify g) st6 of
                                        Inl err \<Rightarrow> st6
                                      | Inr st7 \<Rightarrow> st7)
                                   else st6))))))"

text \<open>
  \<^verbatim>\<open>MAX_STORAGE_SIZE_BYTES * 0.8\<close> is the double 4194304 exactly (the product exceeds it by
  less than half a unit in the last place).
\<close>

definition compressionThreshold :: nat where
  "compressionThreshold = (MAX_STORAGE_SIZE_BYTES * 4) div 5"

definition checkAndPruneIfNeeded :: "backing \<Rightarrow> engine \<Rightarrow> engine" where
  "checkAndPruneIfNeeded B st =
     (case isLocalStorageAvailable B st of
        (False, st1) \<Rightarrow> st1
      | (True, st1) \<Rightarrow>
          (case checkStorageSize B st1 of
             (currentSize, st2) \<Rightarrow>
               (let st3 = (if compressionThreshold < currentSize \<and> currentSize \<le> MAX_STORAGE_SIZE_BYTES
                           then compressStoredData B st2 else st2)
                in case checkStorageSize B st3 of
                     (sizeAfterCompression, st4) \<Rightarrow>
                       if MAX_STORAGE_SIZE_BYTES < sizeAfterCompression
                       then pruneOldData B st4 else st4)))"


subsection \<open>Saving and flushing the Gotchi state\<close>

definition saveGotchi :: "backing \<Rightarrow> jsval \<Rightarrow> engine \<Rightarrow> engine" where
  "saveGotchi B state st =
     (let st0 = st\<lparr>pendingGotchiState := Some state\<rparr>
      in case isLocalStorageAvailable B st0 of
           (False, st1) \<Rightarrow> st1\<lparr>memoryStorage := (memoryStorage st1)\<lparr>gotchi := Some state\<rparr>\<rparr>
         | (True, st1) \<Rightarrow> st1\<lparr>gotchiSaveTimer := True\<rparr>)"

text \<open>
  The callback that \<^verbatim>\<open>saveGotchi\<close> hands to \<^verbatim>\<open>setTimeout\<close>, run when the debounce
  delay has passed.
\<close>

definition gotchiSaveTimer_callback :: "backing \<Rightarrow> engine \<Rightarrow> engine" where
  "gotchiSaveTimer_callback B st =
     (let st0 = st\<lparr>gotchiSaveTimer := False\<rparr>
      in if \<not> truthy_opt (pendingGotchiState st0) then st0
         else
           (case setItem B GOTCHI_KEY (JSON_stringify (the (pendingGotchiState st0))) st0 of
              Inr st1 \<Rightarrow> (checkAndPruneIfNeeded B st1)\<lparr>pendingGotchiState := None\<rparr>
            | Inl QuotaExceededError \<Rightarrow>
                (let st1 = pruneOldData B st0
                 in case setItem B GOTCHI_KEY (JSON_stringify (the (pendingGotchiState st1))) st1 of
                      Inr st2 \<Rightarrow> st2\<lparr>pendingGotchiState := None\<rparr>
                    | Inl retryError \<Rightarrow>
                        st1\<lparr>memoryOnlyMode := True,
                            memoryStorage := (memoryStorage st1)\<lparr>gotchi := pendingGotchiState st1\<rparr>,
                            pendingGotchiState := None\<rparr>)
            | Inl OtherError \<Rightarrow>
                st0\<lparr>memoryOnlyMode := True,
                    memoryStorage := (memoryStorage st0)\<lparr>gotchi := pendingGotchiState st0\<rparr>,
                    pendingGotchiState := None\<rparr>))"

definition flushGotchiState :: "backing \<Rightarrow> engine \<Rightarrow> engine" where
  "flushGotchiState B st =
     (let st0 = st\<lparr>gotchiSaveTimer := False\<rparr>
      in if \<not> truthy_opt (pendingGotchiState st0) then st0
         else
           (case isLocalStorageAvailable B st0 of
              (False, st1) \<Rightarrow>
                st1\<lparr>memoryStorage := (memoryStorage st1)\<lparr>gotchi := pendingGotchiState st1\<rparr>,
                    pendingGotchiState := None\<rparr>
            | (True, st1) \<Rightarrow>
                (case setItem B GOTCHI_KEY (JSON_stringify (the (pendingGotchiState st1))) st1 of
                   Inr st2 \<Rightarrow> st2\<lparr>pendingGotchiState := None\<rparr>
                 | Inl err \<Rightarrow>
                     st1\<lparr>memoryStorage := (memoryStorage st1)\<lparr>gotchi := pendingGotchiState st1\<rparr>,
                         pendingGotchiState := None\<rparr>)))"

subsection \<open>Saving and flushing feeding records\<close>




subsection \<open>Saving and flushing expressions\<close>





subsection \<open>Import\<close>





subsection \<open>What the three stores hold\<close>

text \<open>
  The content of a store as the service reads it: the memory mirror in memory-only mode,
  otherwise the array (or the valid state) that the text under the key denotes, and nothing
  when the key is absent or the text is not of that shape.
\<close>

definition storedGotchi :: "engine \<Rightarrow> jsval option" where
  "storedGotchi st =
     (if memoryOnlyMode st then gotchi (memoryStorage st)
      else case getItem st GOTCHI_KEY of
             None \<Rightarrow> None
           | Some serialized \<Rightarrow>
               (case JSON_parse serialized of
                  None \<Rightarrow> None
                | Some state \<Rightarrow> if isValidGotchiState state then Some state else None))"

definition storedFeedingHistory :: "engine \<Rightarrow> jsval list" where
  "storedFeedingHistory st =
     (if memoryOnlyMode st then feedingHistory (memoryStorage st)
      else case getItem st FEEDING_HISTORY_KEY of
             None \<Rightarrow> []
           | Some serialized \<Rightarrow>
               (case JSON_parse serialized of Some (JArr xs) \<Rightarrow> xs | _ \<Rightarrow> []))"

definition storedExpressions :: "engine \<Rightarrow> jsval list" where
  "storedExpressions st =
     (if memoryOnlyMode st then expressions (memoryStorage st)
      else case getItem st EXPRESSIONS_KEY of
             None \<Rightarrow> []
           | Some serialized \<Rightarrow>
               (case JSON_parse serialized of Some (JArr xs) \<Rightarrow> xs | _ \<Rightarrow> []))"

text \<open>
  Everything the service can observe of a state: the mode, the mirror, the content of the
  three stores, the pending writes and the timers. The exact text in \<^verbatim>\<open>localStorage\<close> is
  left out.
\<close>

record content =
  c_memoryOnly :: bool
  c_memory :: memory_storage
  c_gotchi :: "jsval option"
  c_feeding :: "jsval list"
  c_expressions :: "jsval list"
  c_pendingGotchi :: "jsval option"
  c_pendingFeeding :: "jsval list"
  c_pendingExpressions :: "jsval list"
  c_timers :: "bool \<times> bool \<times> bool"

definition content_of :: "engine \<Rightarrow> content" where
  "content_of st =
     \<lparr>c_memoryOnly = memoryOnlyMode st, c_memory = memoryStorage st,
      c_gotchi = storedGotchi st, c_feeding = storedFeedingHistory st,
      c_expressions = storedExpressions st,
      c_pendingGotchi = pendingGotchiState st,
      c_pendingFeeding = pendingFeedingRecords st,
      c_pendingExpressions = pendingExpressions st,
      c_timers = (gotchiSaveTimer st, feedingSaveTimer st, expressionSaveTimer st)\<rparr>"

text \<open>An accepted write, and the net effect of an accepted probe.\<close>

definition put :: "string \<Rightarrow> string \<Rightarrow> engine \<Rightarrow> engine" where
  "put k v st = st\<lparr>localStorage := AList.update k v (localStorage st)\<rparr>"

definition clean :: "engine \<Rightarrow> engine" where
  "clean st = st\<lparr>localStorage := AList.delete testKey (localStorage st)\<rparr>"

text \<open>The two ways the browser can behave throughout: every write goes through, or none.\<close>

definition accepts_all :: "backing \<Rightarrow> bool" where
  "accepts_all B \<longleftrightarrow> (\<forall>s k v. B s k v = None)"

definition rejects_all :: "backing \<Rightarrow> bool" where
  "rejects_all B \<longleftrightarrow> (\<forall>s k v. B s k v \<noteq> None)"



text \<open>
  \<^verbatim>\<open>pruneOldData\<close> on one store, as it reads it through \<^verbatim>\<open>getFeedingHistory\<close> or
  \<^verbatim>\<open>getExpressions\<close> with the store's cap as the limit.
\<close>

definition prune_list :: "nat \<Rightarrow> 'a list \<Rightarrow> 'a list" where
  "prune_list cap xs = (let h = slice_neg xs cap in slice_neg h (floor_80pct (length h)))"

text \<open>The sum that \<^verbatim>\<open>checkStorageSize\<close> computes over \<^verbatim>\<open>localStorage\<close>.\<close>

definition store_size :: "engine \<Rightarrow> nat" where
  "store_size st = sum_list (map entry_size (localStorage st))"

text \<open>
  One content is the other with the two histories cut down to suffixes: what the capacity
  check may do to a state.
\<close>

definition trims :: "content \<Rightarrow> content \<Rightarrow> bool" where
  "trims c c' \<longleftrightarrow>
     c' = c\<lparr>c_feeding := c_feeding c', c_expressions := c_expressions c'\<rparr> \<and>
     suffix (c_feeding c') (c_feeding c) \<and> suffix (c_expressions c') (c_expressions c)"




subsection \<open>Sequences of saves\<close>







section \<open>Example data\<close>

text \<open>A browser that accepts every write, and one whose quota is exhausted.\<close>

definition browser_ok :: backing where
  "browser_ok = (\<lambda>s k v. None)"

definition browser_full :: backing where
  "browser_full = (\<lambda>s k v. Some QuotaExceededError)"

text \<open>The state of the module when it is loaded, over given \<^verbatim>\<open>localStorage\<close> contents.\<close>

definition initial :: "store \<Rightarrow> engine" where
  "initial s =
     \<lparr>localStorage = s, memoryOnlyMode = False,
      memoryStorage = \<lparr>gotchi = None, feedingHistory = [], expressions = []\<rparr>,
      gotchiSaveTimer = False, feedingSaveTimer = False, expressionSaveTimer = False,
      pendingGotchiState = None, pendingFeedingRecords = [], pendingExpressions = []\<rparr>"

text \<open>The Gotchi of the first unit test, and small feeding records and expressions.\<close>

definition gotchi1 :: jsval where
  "gotchi1 =
     JObj [(''id'', JStr ''test-gotchi-1''), (''stage'', JNum 1 0), (''feedingCount'', JNum 5 0),
           (''emotionVector'',
              JObj [(''joy'', JNum 5 1), (''sadness'', JNum 2 1), (''anger'', JNum 1 1),
                    (''fear'', JNum 0 0), (''surprise'', JNum 3 1), (''disgust'', JNum 0 0),
                    (''trust'', JNum 4 1), (''lastUpdated'', JNum 1700000000000 0)]),
           (''createdAt'', JNum 1700000000000 0)]"

definition feed :: "string \<Rightarrow> jsval" where
  "feed i = JObj [(''id'', JStr i), (''inputText'', JStr ''hello world'')]"

definition art :: "string \<Rightarrow> jsval" where
  "art i = JObj [(''id'', JStr i), (''dominantEmotion'', JStr ''joy'')]"

text \<open>A session that has fallen back to the memory mirror, which holds some data.\<close>

definition in_memory :: engine where
  "in_memory =
     (initial [(GOTCHI_KEY, ''{}'')])
       \<lparr>memoryOnlyMode := True,
        memoryStorage := \<lparr>gotchi = Some gotchi1, feedingHistory = [feed ''a'', feed ''b''],
                          expressions = [art ''x'']\<rparr>\<rparr>"



text \<open>A pending Gotchi state whose debounce timer is running.\<close>

definition debouncing :: engine where
  "debouncing = (initial [])\<lparr>pendingGotchiState := Some gotchi1, gotchiSaveTimer := True\<rparr>"

text \<open>Persisted data as the service itself writes it.\<close>

definition stocked :: engine where
  "stocked =
     initial [(GOTCHI_KEY, JSON_stringify gotchi1),
              (FEEDING_HISTORY_KEY, JSON_stringify (JArr [feed ''f1'', feed ''f2'', feed ''f3''])),
              (EXPRESSIONS_KEY, JSON_stringify (JArr [art ''a1'', art ''a2'']))]"


text \<open>A feeding history of one record and no expressions, persisted and in the mirror.\<close>

definition single :: engine where
  "single = initial [(FEEDING_HISTORY_KEY, JSON_stringify (JArr [feed ''f1'']))]"

definition single_memory :: engine where
  "single_memory =
     (initial [])\<lparr>memoryOnlyMode := True,
                  memoryStorage := \<lparr>gotchi = None, feedingHistory = [feed ''f1''], expressions = []\<rparr>\<rparr>"

text \<open>
  A Gotchi state written with white space, a feeding history likewise, and an art
  expression whose image is a data URL of \<open>n\<close> characters.
\<close>

definition tiny_gotchi :: jsval where
  "tiny_gotchi =
     JObj [(''id'', JStr ''g1''), (''stage'', JNum 1 0), (''feedingCount'', JNum 0 0),
           (''emotionVector'', JObj []), (''createdAt'', JNum 0 0)]"

definition spaced_gotchi :: string where
  \<open>spaced_gotchi =
     ''{ "id": "g1", "stage": 1, "feedingCount": 0, "emotionVector": {}, "createdAt": 0 }''\<close>

definition spaced_feeding :: string where
  \<open>spaced_feeding = ''[ {"id": "f1"} ]''\<close>

definition big_art :: "nat \<Rightarrow> jsval" where
  "big_art n = JObj [(''id'', JStr ''a1''), (''imageUrl'', JStr (replicate n (CHR ''A'')))]"

definition crowded :: "nat \<Rightarrow> engine" where
  "crowded n =
     initial [(GOTCHI_KEY, spaced_gotchi), (FEEDING_HISTORY_KEY, spaced_feeding),
              (EXPRESSIONS_KEY, JSON_stringify (JArr [big_art n]))]"

section \<open>Reading back what was printed\<close>

text \<open>
  \<open>JSON_parse\<close> inverts \<open>JSON_stringify\<close> on every value. The proof goes through the
  lexical layers: digits, numbers, string literals, then values by induction.
\<close>

lemma digit_cases: "d < 10 \<Longrightarrow> d = 0 \<or> d = 1 \<or> d = 2 \<or> d = 3 \<or> d = 4 \<or> d = 5 \<or> d = 6 \<or> d = 7 \<or> d = 8 \<or> d = (9::nat)"
  by arith

lemma is_digit_digit_char: "d < 10 \<Longrightarrow> is_digit (digit_char d)"
  using digit_cases [of d] by (auto simp add: is_digit_def digit_char_def)

lemma digit_val_digit_char: "d < 10 \<Longrightarrow> digit_val (digit_char d) = d"
  using digit_cases [of d] by (auto simp add: digit_val_def digit_char_def)

lemma digit_char_zero: "d < 10 \<Longrightarrow> digit_char d = CHR ''0'' \<Longrightarrow> d = 0"
  using digit_cases [of d] by (auto simp add: digit_char_def)

lemma is_digit_not_special:
  "is_digit c \<Longrightarrow> c \<noteq> CHR ''n'' \<and> c \<noteq> CHR ''t'' \<and> c \<noteq> CHR ''f'' \<and> c \<noteq> CHR 0x22 \<and>
     c \<noteq> CHR ''['' \<and> c \<noteq> CHR ''{'' \<and> c \<noteq> CHR ''-'' \<and> c \<noteq> CHR ''.'' \<and> \<not> is_ws c \<and>
     c \<noteq> CHR '','' \<and> c \<noteq> CHR '']'' \<and> c \<noteq> CHR ''}''"
  by (auto simp add: is_digit_def is_ws_def)

lemma show_nat_nonempty: "show_nat n \<noteq> []"
  by (subst show_nat.simps) simp

lemma show_nat_digits: "c \<in> set (show_nat n) \<Longrightarrow> is_digit c"
proof (induction n arbitrary: c rule: show_nat.induct)
  case (1 n)
  show ?case
  proof (cases "n < 10")
    case True
    with "1.prems" show ?thesis
      by (subst (asm) show_nat.simps) (simp add: is_digit_digit_char)
  next
    case False
    with "1.prems" have "c \<in> set (show_nat (n div 10)) \<or> c = digit_char (n mod 10)"
      by (subst (asm) show_nat.simps) auto
    then show ?thesis
      using "1.IH" [OF False] by (auto simp add: is_digit_digit_char)
  qed
qed

lemma read_digits_Nil: "read_digits [] = 0"
  by (simp add: read_digits_def)

lemma read_digits_snoc: "read_digits (ds @ [c]) = 10 * read_digits ds + digit_val c"
  by (simp add: read_digits_def)

lemma read_show_nat: "read_digits (show_nat n) = n"
proof (induction n rule: show_nat.induct)
  case (1 n)
  show ?case
  proof (cases "n < 10")
    case True
    then show ?thesis
      by (subst show_nat.simps) (simp add: read_digits_def digit_val_digit_char)
  next
    case False
    then show ?thesis
      using "1.IH" [OF False]
      by (subst show_nat.simps) (simp add: read_digits_snoc digit_val_digit_char)
  qed
qed

lemma hd_show_nat_zero: "hd (show_nat n) = CHR ''0'' \<Longrightarrow> n = 0"
proof (induction n rule: show_nat.induct)
  case (1 n)
  show ?case
  proof (cases "n < 10")
    case True
    with "1.prems" show ?thesis
      by (subst (asm) show_nat.simps) (simp add: digit_char_zero)
  next
    case False
    with "1.prems" have "hd (show_nat (n div 10)) = CHR ''0''"
      by (subst (asm) show_nat.simps) (simp add: show_nat_nonempty)
    with "1.IH" [OF False] have "n div 10 = 0" by simp
    with False show ?thesis by simp
  qed
qed

lemma show_nat_no_leading_zero: "\<not> (1 < length (show_nat n) \<and> hd (show_nat n) = CHR ''0'')"
proof
  assume a: "1 < length (show_nat n) \<and> hd (show_nat n) = CHR ''0''"
  then have "n = 0" using hd_show_nat_zero by blast
  then have "length (show_nat n) = 1" by (subst show_nat.simps) simp
  with a show False by simp
qed

lemma length_show_frac [simp]: "length (show_frac e r) = e"
  by (induction e arbitrary: r) auto

lemma show_frac_digits: "c \<in> set (show_frac e r) \<Longrightarrow> is_digit c"
  by (induction e arbitrary: r) (auto simp add: is_digit_digit_char)

lemma read_show_frac: "read_digits (show_frac e r) = r mod 10 ^ e"
proof (induction e arbitrary: r)
  case 0
  then show ?case by (simp add: read_digits_def)
next
  case (Suc e)
  have "r mod (10 * 10 ^ e) = 10 * (r div 10 mod 10 ^ e) + r mod 10"
    by (simp add: mod_mult2_eq)
  then show ?case
    using Suc.IH [of "r div 10"] by (simp add: read_digits_snoc digit_val_digit_char)
qed

lemma span_digits:
  assumes "\<And>c. c \<in> set ds \<Longrightarrow> is_digit c" "rest = [] \<or> \<not> is_digit (hd rest)"
  shows "takeWhile is_digit (ds @ rest) = ds" "dropWhile is_digit (ds @ rest) = rest"
proof -
  have t: "takeWhile is_digit rest = []" "dropWhile is_digit rest = rest"
    using assms(2) by (cases rest; simp)+
  show "takeWhile is_digit (ds @ rest) = ds" using assms(1) t by (simp add: takeWhile_append2)
  show "dropWhile is_digit (ds @ rest) = rest" using assms(1) t by (simp add: dropWhile_append2)
qed

lemma closes_not_digit: "closes rest \<Longrightarrow> rest = [] \<or> (\<not> is_digit (hd rest) \<and> hd rest \<noteq> CHR ''.'')"
  by (auto simp add: closes_def is_digit_def)

lemma parse_show_num:
  assumes "closes rest"
  shows "parse_num (show_num m e @ rest) = Some (JNum m e, rest)"
proof -
  let ?a = "nat \<bar>m\<bar>"
  let ?ip = "show_nat (?a div 10 ^ e)"
  let ?fp = "show_frac e (?a mod 10 ^ e)"
  let ?tail = "(if e = 0 then [] else CHR ''.'' # ?fp) @ rest"
  have hd_ip: "is_digit (hd ?ip)" using show_nat_nonempty [of "?a div 10 ^ e"] show_nat_digits
    by (metis hd_in_set)
  have tail_ok: "?tail = [] \<or> \<not> is_digit (hd ?tail)"
    using closes_not_digit [OF assms] by (auto simp add: is_digit_def)
  have sp1: "takeWhile is_digit (?ip @ ?tail) = ?ip" "dropWhile is_digit (?ip @ ?tail) = ?tail"
    using span_digits [of ?ip ?tail] show_nat_digits tail_ok by blast+
  have rest_ok: "rest = [] \<or> \<not> is_digit (hd rest)" using closes_not_digit [OF assms] by blast
  have sp2: "takeWhile is_digit (?fp @ rest) = ?fp" "dropWhile is_digit (?fp @ rest) = rest"
    using span_digits [of ?fp rest] show_frac_digits rest_ok by blast+
  have val: "?a div 10 ^ e * 10 ^ e + ?a mod 10 ^ e = ?a" by (rule div_mult_mod_eq)
  have neg: "(show_num m e @ rest \<noteq> [] \<and> hd (show_num m e @ rest) = CHR ''-'') = (m < 0)"
    using hd_ip show_nat_nonempty [of "?a div 10 ^ e"] is_digit_not_special [of "hd ?ip"]
    by (auto simp add: show_num_def)
  have body: "(if m < 0 then tl (show_num m e @ rest) else show_num m e @ rest) = ?ip @ ?tail"
    by (simp add: show_num_def)
  have dot: "(?tail \<noteq> [] \<and> hd ?tail = CHR ''.'') = (e \<noteq> 0)"
    using closes_not_digit [OF assms] by auto
  show ?thesis
  proof (cases "e = 0")
    case True
    then show ?thesis
      unfolding parse_num_def Let_def neg body sp1
      using show_nat_nonempty [of "?a div 10 ^ e"] show_nat_no_leading_zero [of "?a div 10 ^ e"] dot
      by (auto simp add: mk_num_def read_show_nat read_digits_Nil)
  next
    case False
    then have tl: "tl ?tail = ?fp @ rest" by simp
    have fpne: "?fp \<noteq> []" using False length_show_frac [of e "?a mod 10 ^ e"] by (metis length_0_conv)
    show ?thesis
      unfolding parse_num_def Let_def neg body sp1 tl sp2
      using show_nat_nonempty [of "?a div 10 ^ e"] show_nat_no_leading_zero [of "?a div 10 ^ e"] dot False fpne val
      by (auto simp add: mk_num_def read_show_nat read_show_frac)
  qed
qed

lemma parse_str_Cons:
  "parse_str (c # xs) =
     (if c = CHR 0x22 then Some ([], xs)
      else if c = CHR 0x5C then
        (case xs of [] \<Rightarrow> None
         | d # cs \<Rightarrow> (case unescape d of None \<Rightarrow> None
             | Some x \<Rightarrow> map_option (\<lambda>(s, r). (x # s, r)) (parse_str cs)))
      else map_option (\<lambda>(s, r). (c # s, r)) (parse_str xs))"
  by (cases xs) auto

lemma parse_escape: "parse_str (escape s @ CHR 0x22 # rest) = Some (s, rest)"
  by (induction s) (simp_all add: parse_str_Cons unescape_def del: parse_str.simps)

lemma parse_show_str: "parse_str (tl (show_str s @ rest)) = Some (s, rest)"
  by (simp add: show_str_def parse_escape)

lemma hd_show_str [simp]: "hd (show_str s @ rest) = CHR 0x22"
  by (simp add: show_str_def)

lemma skip_ws_Cons: "\<not> is_ws c \<Longrightarrow> skip_ws (c # cs) = c # cs"
  by (simp add: skip_ws_def)

lemma show_num_head:
  "\<exists>c cs. show_num m e = c # cs \<and> (c = CHR ''-'' \<or> is_digit c)"
proof -
  let ?ip = "show_nat (nat \<bar>m\<bar> div 10 ^ e)"
  obtain d ds where ip: "?ip = d # ds" using show_nat_nonempty [of "nat \<bar>m\<bar> div 10 ^ e"]
    by (cases ?ip) auto
  then have "is_digit d" using show_nat_digits [of d "nat \<bar>m\<bar> div 10 ^ e"] by simp
  then show ?thesis using ip by (auto simp add: show_num_def)
qed

lemma show_nonempty: "JSON_stringify v \<noteq> []"
proof (cases v)
  case (JNum m e)
  then show ?thesis using show_num_head [of m e] by auto
next
  case (JStr s)
  then show ?thesis by (simp add: show_str_def)
qed simp_all

lemma hd_show_num: "hd (show_num m e) = CHR ''-'' \<or> is_digit (hd (show_num m e))"
  using show_num_head [of m e] by auto

lemma opens_simps:
  "opens (CHR ''n'')" "opens (CHR ''t'')" "opens (CHR ''f'')" "opens (CHR 0x22)"
  "opens (CHR ''['')" "opens (CHR ''{'')" "opens (CHR ''-'')"
  by (simp_all add: opens_def is_ws_def)

lemma opens_digit: "is_digit c \<Longrightarrow> opens c"
  using is_digit_not_special [of c] by (simp add: opens_def)

lemma show_opens: "opens (hd (JSON_stringify v))"
proof (cases v)
  case (JNum m e)
  then show ?thesis using hd_show_num [of m e] opens_digit opens_simps(7) by auto
next
  case (JStr s)
  then show ?thesis by (simp add: show_str_def opens_simps)
next
  case (JBool b)
  then show ?thesis by (cases b) (simp_all add: opens_simps)
qed (simp_all add: opens_simps)

lemma show_head: "\<exists>c cs. JSON_stringify v = c # cs \<and> opens c"
  using show_nonempty [of v] show_opens [of v] by (cases "JSON_stringify v") auto

lemma commas_Cons:
  "commas (x # xs) = x @ (if xs = [] then [] else CHR '','' # commas xs)"
  by (cases xs) auto

lemma length_show_pos: "0 < length (JSON_stringify v)"
  using show_head [of v] by auto

lemma parse_elems_show:
  assumes IH: "\<And>x n rest. x \<in> set xs \<Longrightarrow> length (JSON_stringify x) < n \<Longrightarrow> closes rest \<Longrightarrow>
                 parse_value n (JSON_stringify x @ rest) = Some (x, rest)"
    and "xs \<noteq> []" and "length (commas (map JSON_stringify xs)) + 1 < n"
  shows "parse_elems n (commas (map JSON_stringify xs) @ CHR '']'' # rest) = Some (xs, rest)"
  using assms
proof (induction xs arbitrary: n)
  case Nil
  then show ?case by simp
next
  case (Cons x xs)
  let ?R = "(if xs = [] then [] else CHR '','' # commas (map JSON_stringify xs)) @ CHR '']'' # rest"
  obtain n' where n: "n = Suc n'" using Cons.prems(3) by (cases n) auto
  have len: "length (JSON_stringify x) < n'"
    using Cons.prems(3) n by (simp add: commas_Cons split: if_splits)
  have cl: "closes ?R" by (simp add: closes_def)
  have pv: "parse_value n' (JSON_stringify x @ ?R) = Some (x, ?R)"
    using Cons.prems(1) [OF _ len cl] by simp
  have eq: "commas (map JSON_stringify (x # xs)) @ CHR '']'' # rest = JSON_stringify x @ ?R"
    by (simp add: commas_Cons)
  show ?case
  proof (cases "xs = []")
    case True
    then show ?thesis
      unfolding eq n using pv by (simp add: skip_ws_Cons is_ws_def)
  next
    case False
    have "length (commas (map JSON_stringify xs)) + 1 < n'"
      using Cons.prems(3) n False length_show_pos [of x] by (simp add: commas_Cons)
    have len': "length (commas (map JSON_stringify xs)) + 1 < n'" by fact
    have "parse_elems n' (commas (map JSON_stringify xs) @ CHR '']'' # rest) = Some (xs, rest)"
    proof (rule Cons.IH)
      fix y n rest
      assume "y \<in> set xs" "length (JSON_stringify y) < n" "closes rest"
      then show "parse_value n (JSON_stringify y @ rest) = Some (y, rest)"
        using Cons.prems(1) [of y n rest] by simp
    next
      show "xs \<noteq> []" by fact
    next
      show "length (commas (map JSON_stringify xs)) + 1 < n'" by fact
    qed
    then show ?thesis
      unfolding eq n using False pv by (simp add: skip_ws_Cons is_ws_def)
  qed
qed

lemma parse_members_show:
  assumes IH: "\<And>k v n rest. (k, v) \<in> set kvs \<Longrightarrow> length (JSON_stringify v) < n \<Longrightarrow> closes rest \<Longrightarrow>
                 parse_value n (JSON_stringify v @ rest) = Some (v, rest)"
    and "kvs \<noteq> []" and "length (commas (map show_member kvs)) + 1 < n"
  shows "parse_members n (commas (map show_member kvs) @ CHR ''}'' # rest) = Some (kvs, rest)"
  using assms
proof (induction kvs arbitrary: n)
  case Nil
  then show ?case by simp
next
  case (Cons kv kvs)
  obtain k v where kv: "kv = (k, v)" by (cases kv)
  let ?R = "(if kvs = [] then [] else CHR '','' # commas (map show_member kvs)) @ CHR ''}'' # rest"
  obtain n' where n: "n = Suc n'" using Cons.prems(3) by (cases n) auto
  have len: "length (JSON_stringify v) < n'"
    using Cons.prems(3) n kv by (simp add: commas_Cons split: if_splits)
  have cl: "closes ?R" by (simp add: closes_def)
  have pv: "parse_value n' (JSON_stringify v @ ?R) = Some (v, ?R)"
    using Cons.prems(1) [of k v n' ?R, OF _ len cl] kv by simp
  have eq: "commas (map show_member (kv # kvs)) @ CHR ''}'' # rest =
      show_str k @ (CHR '':'' # JSON_stringify v @ ?R)"
    by (simp add: commas_Cons kv)
  have sk: "skip_ws (show_str k @ (CHR '':'' # JSON_stringify v @ ?R)) =
      show_str k @ (CHR '':'' # JSON_stringify v @ ?R)"
    by (simp add: show_str_def skip_ws_Cons is_ws_def)
  have ps: "parse_str (tl (show_str k @ (CHR '':'' # JSON_stringify v @ ?R))) =
      Some (k, CHR '':'' # JSON_stringify v @ ?R)"
    by (rule parse_show_str)
  show ?case
  proof (cases "kvs = []")
    case True
    have sk': "skip_ws (show_str k @ CHR '':'' # JSON_stringify v @ CHR ''}'' # rest) =
      show_str k @ CHR '':'' # JSON_stringify v @ CHR ''}'' # rest"
      using sk True by simp
    have ps': "parse_str (tl (show_str k @ CHR '':'' # JSON_stringify v @ CHR ''}'' # rest)) =
      Some (k, CHR '':'' # JSON_stringify v @ CHR ''}'' # rest)"
      by (rule parse_show_str)
    from True show ?thesis
      unfolding eq n using pv
      by (simp add: sk' ps' skip_ws_Cons is_ws_def Let_def kv del: parse_str.simps)
  next
    case False
    have "length (commas (map show_member kvs)) + 1 < n'"
      using Cons.prems(3) n False kv by (simp add: commas_Cons show_str_def)
    moreover have "parse_members n' (commas (map show_member kvs) @ CHR ''}'' # rest) = Some (kvs, rest)"
    proof (rule Cons.IH)
      fix k v n rest
      assume "(k, v) \<in> set kvs" "length (JSON_stringify v) < n" "closes rest"
      then show "parse_value n (JSON_stringify v @ rest) = Some (v, rest)"
        using Cons.prems(1) [of k v n rest] by simp
    next
      show "kvs \<noteq> []" by fact
    next
      show "length (commas (map show_member kvs)) + 1 < n'" by fact
    qed
    moreover have sk': "skip_ws (show_str k @ CHR '':'' # JSON_stringify v @ CHR '','' # commas (map show_member kvs) @ CHR ''}'' # rest) =
      show_str k @ CHR '':'' # JSON_stringify v @ CHR '','' # commas (map show_member kvs) @ CHR ''}'' # rest"
      using sk False by simp
    moreover have ps': "parse_str (tl (show_str k @ CHR '':'' # JSON_stringify v @ CHR '','' # commas (map show_member kvs) @ CHR ''}'' # rest)) =
      Some (k, CHR '':'' # JSON_stringify v @ CHR '','' # commas (map show_member kvs) @ CHR ''}'' # rest)"
      by (rule parse_show_str)
    ultimately show ?thesis
      unfolding eq n using False pv
      by (simp add: skip_ws_Cons is_ws_def Let_def kv del: parse_str.simps)
  qed
qed

lemma parse_value_Cons:
  "\<not> is_ws c \<Longrightarrow> parse_value (Suc n) (c # cs) =
     (if c = CHR ''n'' then (if take 4 (c # cs) = ''null'' then Some (JNull, drop 4 (c # cs)) else None)
      else if c = CHR ''t'' then (if take 4 (c # cs) = ''true'' then Some (JBool True, drop 4 (c # cs)) else None)
      else if c = CHR ''f'' then (if take 5 (c # cs) = ''false'' then Some (JBool False, drop 5 (c # cs)) else None)
      else if c = CHR 0x22 then map_option (\<lambda>(s, r). (JStr s, r)) (parse_str cs)
      else if c = CHR ''['' then
        (let us = skip_ws cs in
         if us \<noteq> [] \<and> hd us = CHR '']'' then Some (JArr [], tl us)
         else map_option (\<lambda>(xs, r). (JArr xs, r)) (parse_elems n cs))
      else if c = CHR ''{'' then
        (let us = skip_ws cs in
         if us \<noteq> [] \<and> hd us = CHR ''}'' then Some (JObj [], tl us)
         else map_option (\<lambda>(kvs, r). (JObj kvs, r)) (parse_members n cs))
      else parse_num (c # cs))"
  by (simp add: skip_ws_Cons Let_def del: parse_str.simps)

lemma pv_null: "parse_value (Suc n) (''null'' @ rest) = Some (JNull, rest)"
  by (simp add: parse_value_Cons is_ws_def del: parse_value.simps)

lemma pv_bool: "parse_value (Suc n) ((if b then ''true'' else ''false'') @ rest) = Some (JBool b, rest)"
  by (cases b) (simp_all add: parse_value_Cons is_ws_def del: parse_value.simps)

lemma pv_str: "parse_value (Suc n) (show_str s @ rest) = Some (JStr s, rest)"
  by (simp add: show_str_def parse_value_Cons is_ws_def parse_escape del: parse_value.simps parse_str.simps)

lemma pv_num:
  assumes "closes rest"
  shows "parse_value (Suc n) (show_num m e @ rest) = Some (JNum m e, rest)"
proof -
  obtain c cs where c: "show_num m e = c # cs" "c = CHR ''-'' \<or> is_digit c"
    using show_num_head by blast
  have nw: "\<not> is_ws c" using c(2) opens_digit [of c] opens_simps(7) by (auto simp add: opens_def)
  have disp: "c \<noteq> CHR ''n''" "c \<noteq> CHR ''t''" "c \<noteq> CHR ''f''" "c \<noteq> CHR 0x22" "c \<noteq> CHR ''[''" "c \<noteq> CHR ''{''"
    using c(2) is_digit_not_special [of c] by auto
  have "parse_value (Suc n) (c # (cs @ rest)) = parse_num (c # (cs @ rest))"
    using disp by (simp add: parse_value_Cons [OF nw] del: parse_value.simps)
  then have "parse_value (Suc n) (show_num m e @ rest) = parse_num (show_num m e @ rest)"
    by (simp add: c(1) del: parse_value.simps)
  then show ?thesis using parse_show_num [OF assms] by simp
qed

lemma skip_ws_opens: "cs \<noteq> [] \<Longrightarrow> opens (hd cs) \<Longrightarrow> skip_ws cs = cs"
  by (cases cs) (simp_all add: skip_ws_Cons opens_def)

lemma pv_arr:
  assumes "xs \<noteq> []"
    and "parse_elems n (commas (map JSON_stringify xs) @ CHR '']'' # rest) = Some (xs, rest)"
  shows "parse_value (Suc n) (JSON_stringify (JArr xs) @ rest) = Some (JArr xs, rest)"
proof -
  let ?body = "commas (map JSON_stringify xs) @ CHR '']'' # rest"
  obtain x xs' where xs: "xs = x # xs'" using assms(1) by (cases xs) auto
  have hd: "?body \<noteq> []" "hd ?body = hd (JSON_stringify x)"
    using show_nonempty [of x] by (simp_all add: xs commas_Cons)
  have op: "opens (hd ?body)" using hd(2) show_opens [of x] by simp
  have sk: "skip_ws ?body = ?body" using skip_ws_opens [OF hd(1) op] .
  have ne: "hd ?body \<noteq> CHR '']''" using op by (simp add: opens_def)
  have "parse_value (Suc n) (CHR ''['' # ?body) = Some (JArr xs, rest)"
    using sk ne hd(1) assms(2)
    by (simp add: parse_value_Cons is_ws_def Let_def del: parse_value.simps)
  then show ?thesis by simp
qed

lemma pv_obj:
  assumes "kvs \<noteq> []"
    and "parse_members n (commas (map show_member kvs) @ CHR ''}'' # rest) = Some (kvs, rest)"
  shows "parse_value (Suc n) (JSON_stringify (JObj kvs) @ rest) = Some (JObj kvs, rest)"
proof -
  let ?body = "commas (map show_member kvs) @ CHR ''}'' # rest"
  obtain kv kvs' where kvs: "kvs = kv # kvs'" using assms(1) by (cases kvs) auto
  have hd: "?body \<noteq> []" "hd ?body = CHR 0x22"
    by (simp_all add: kvs commas_Cons show_str_def)
  have op: "opens (hd ?body)" using hd(2) opens_simps(4) by simp
  have sk: "skip_ws ?body = ?body" using skip_ws_opens [OF hd(1) op] .
  have ne: "hd ?body \<noteq> CHR ''}''" using hd(2) by simp
  have "parse_value (Suc n) (CHR ''{'' # ?body) = Some (JObj kvs, rest)"
    using sk ne hd(1) assms(2)
    by (simp add: parse_value_Cons is_ws_def Let_def del: parse_value.simps)
  then show ?thesis by simp
qed

lemma pv_empty:
  "parse_value (Suc n) (JSON_stringify (JArr []) @ rest) = Some (JArr [], rest)"
  "parse_value (Suc n) (JSON_stringify (JObj []) @ rest) = Some (JObj [], rest)"
  by (simp_all add: parse_value_Cons is_ws_def skip_ws_Cons del: parse_value.simps)

lemma parse_value_show:
  "length (JSON_stringify v) < n \<Longrightarrow> closes rest \<Longrightarrow>
   parse_value n (JSON_stringify v @ rest) = Some (v, rest)"
proof (induction v arbitrary: n rest)
  case JNull
  then obtain n' where "n = Suc n'" by (cases n) auto
  then show ?case using pv_null [of n' rest] by simp
next
  case (JBool b)
  then obtain n' where "n = Suc n'" by (cases n) auto
  then show ?case using pv_bool [of n' b rest] by simp
next
  case (JNum m e)
  then obtain n' where "n = Suc n'" by (cases n) auto
  then show ?case using pv_num [OF JNum.prems(2), of n' m e] by simp
next
  case (JStr s)
  then obtain n' where "n = Suc n'" by (cases n) auto
  then show ?case using pv_str [of n' s rest] by simp
next
  case (JArr xs)
  then obtain n' where n: "n = Suc n'" by (cases n) auto
  show ?case
  proof (cases "xs = []")
    case True
    then show ?thesis using pv_empty(1) [of n' rest] n by simp
  next
    case False
    have "length (commas (map JSON_stringify xs)) + 1 < n'"
      using JArr.prems(1) n by simp
    then have "parse_elems n' (commas (map JSON_stringify xs) @ CHR '']'' # rest) = Some (xs, rest)"
      using parse_elems_show [of xs n' rest] JArr.IH False by blast
    then show ?thesis using pv_arr [OF False] n by blast
  qed
next
  case (JObj kvs)
  then obtain n' where n: "n = Suc n'" by (cases n) auto
  show ?case
  proof (cases "kvs = []")
    case True
    then show ?thesis using pv_empty(2) [of n' rest] n by simp
  next
    case False
    have len: "length (commas (map show_member kvs)) + 1 < n'"
      using JObj.prems(1) n by simp
    have "parse_members n' (commas (map show_member kvs) @ CHR ''}'' # rest) = Some (kvs, rest)"
    proof (rule parse_members_show)
      fix k v n rest
      assume "(k, v) \<in> set kvs" "length (JSON_stringify v) < n" "closes rest"
      then show "parse_value n (JSON_stringify v @ rest) = Some (v, rest)"
        using JObj.IH [of "(k, v)" v n rest] by simp
    next
      show "kvs \<noteq> []" by fact
    next
      show "length (commas (map show_member kvs)) + 1 < n'" by fact
    qed
    then show ?thesis using pv_obj [OF False] n by blast
  qed
qed

lemma JSON_roundtrip [simp]: "JSON_parse (JSON_stringify v) = Some v"
  using parse_value_show [of v "Suc (length (JSON_stringify v))" "[]"]
  by (simp add: JSON_parse_def closes_def skip_ws_def)

text \<open>From here on the printer is opaque: only the round trip is used.\<close>

declare JSON_stringify.simps [simp del]

lemma stringify_nonempty [simp]: "JSON_stringify v \<noteq> []"
  by (rule show_nonempty)

lemma JSON_parse_empty [simp]: "JSON_parse [] = None"
  by (simp add: JSON_parse_def skip_ws_def)

section \<open>Basic facts about the store and the probe\<close>

lemma keys_distinct [simp]:
  "testKey \<noteq> GOTCHI_KEY" "testKey \<noteq> FEEDING_HISTORY_KEY" "testKey \<noteq> EXPRESSIONS_KEY"
  "GOTCHI_KEY \<noteq> testKey" "FEEDING_HISTORY_KEY \<noteq> testKey" "EXPRESSIONS_KEY \<noteq> testKey"
  "GOTCHI_KEY \<noteq> FEEDING_HISTORY_KEY" "GOTCHI_KEY \<noteq> EXPRESSIONS_KEY"
  "FEEDING_HISTORY_KEY \<noteq> GOTCHI_KEY" "FEEDING_HISTORY_KEY \<noteq> EXPRESSIONS_KEY"
  "EXPRESSIONS_KEY \<noteq> GOTCHI_KEY" "EXPRESSIONS_KEY \<noteq> FEEDING_HISTORY_KEY"
  by (simp_all add: testKey_def GOTCHI_KEY_def FEEDING_HISTORY_KEY_def EXPRESSIONS_KEY_def
      STORAGE_KEY_PREFIX_def)

lemma probe_memory [simp]:
  "memoryOnlyMode st \<Longrightarrow> isLocalStorageAvailable B st = (False, st)"
  by (simp add: isLocalStorageAvailable_def)

lemma probe_accepted:
  "\<not> memoryOnlyMode st \<Longrightarrow> B (localStorage st) testKey ''test'' = None \<Longrightarrow>
   isLocalStorageAvailable B st = (True, st\<lparr>localStorage := AList.delete testKey (localStorage st)\<rparr>)"
  by (simp add: isLocalStorageAvailable_def setItem_def removeItem_def delete_update_same)

lemma probe_rejected:
  "\<not> memoryOnlyMode st \<Longrightarrow> B (localStorage st) testKey ''test'' = Some err \<Longrightarrow>
   isLocalStorageAvailable B st = (False, st\<lparr>memoryOnlyMode := True\<rparr>)"
  by (simp add: isLocalStorageAvailable_def setItem_def)

lemma getItem_delete [simp]:
  "getItem (st\<lparr>localStorage := AList.delete k (localStorage st)\<rparr>) k' =
     (if k' = k then None else getItem st k')"
  by (simp add: getItem_def delete_conv')

lemma getItem_removeItem [simp]:
  "getItem (removeItem k st) k' = (if k' = k then None else getItem st k')"
  by (simp add: getItem_def removeItem_def delete_conv')


lemma getFeedingHistory_available:
  assumes "\<not> memoryOnlyMode st" "B (localStorage st) testKey ''test'' = None"
  shows "getFeedingHistory B limit st =
    (let st1 = st\<lparr>localStorage := AList.delete testKey (localStorage st)\<rparr> in
     case getItem st FEEDING_HISTORY_KEY of None \<Rightarrow> ([], st1)
     | Some t \<Rightarrow> if t = [] then ([], st1)
         else case JSON_parse t of Some (JArr xs) \<Rightarrow> (slice_neg xs limit, st1)
           | _ \<Rightarrow> ([], removeItem FEEDING_HISTORY_KEY st1))"
  using assms by (simp add: getFeedingHistory_def probe_accepted Let_def split: option.splits jsval.splits)

lemma getExpressions_available:
  assumes "\<not> memoryOnlyMode st" "B (localStorage st) testKey ''test'' = None"
  shows "getExpressions B limit st =
    (let st1 = st\<lparr>localStorage := AList.delete testKey (localStorage st)\<rparr> in
     case getItem st EXPRESSIONS_KEY of None \<Rightarrow> ([], st1)
     | Some t \<Rightarrow> if t = [] then ([], st1)
         else case JSON_parse t of Some (JArr xs) \<Rightarrow> (slice_neg xs limit, st1)
           | _ \<Rightarrow> ([], removeItem EXPRESSIONS_KEY st1))"
  using assms by (simp add: getExpressions_def probe_accepted Let_def split: option.splits jsval.splits)

lemma probe_rejects_all:
  "rejects_all B \<Longrightarrow> isLocalStorageAvailable B st = (False, st\<lparr>memoryOnlyMode := True\<rparr>)"
  unfolding rejects_all_def
  by (cases "memoryOnlyMode st")
     (auto simp add: isLocalStorageAvailable_def setItem_def split: option.splits)

lemma setItem_rejects_all:
  "rejects_all B \<Longrightarrow> \<exists>err. setItem B k v st = Inl err"
  unfolding rejects_all_def by (auto simp add: setItem_def split: option.splits)

lemma pruneOldData_rejects_all:
  assumes "rejects_all B"
  shows "memoryOnlyMode (pruneOldData B st)" "pendingGotchiState (pruneOldData B st) = pendingGotchiState st"
  using assms by (simp_all add: pruneOldData_def probe_rejects_all Let_def)

lemma loads_memory:
  assumes "memoryOnlyMode st"
  shows "loadGotchi B st = (gotchi (memoryStorage st), st)"
    "getFeedingHistory B limit st = (slice_neg (feedingHistory (memoryStorage st)) limit, st)"
    "getExpressions B limit st = (slice_neg (expressions (memoryStorage st)) limit, st)"
  using assms by (simp_all add: loadGotchi_def getFeedingHistory_def getExpressions_def)




section \<open>The service on the level of content\<close>

text \<open>
  While the browser accepts every write and the service is not in memory-only mode, each
  operation is described by what it does to the content of a state; in memory-only mode
  the operations work on the mirror alone.
\<close>

lemma engine_fields_put [simp]:
  "memoryOnlyMode (put k v st) = memoryOnlyMode st"
  "memoryStorage (put k v st) = memoryStorage st"
  "pendingGotchiState (put k v st) = pendingGotchiState st"
  "pendingFeedingRecords (put k v st) = pendingFeedingRecords st"
  "pendingExpressions (put k v st) = pendingExpressions st"
  "gotchiSaveTimer (put k v st) = gotchiSaveTimer st"
  "feedingSaveTimer (put k v st) = feedingSaveTimer st"
  "expressionSaveTimer (put k v st) = expressionSaveTimer st"
  by (simp_all add: put_def)

lemma engine_fields_clean [simp]:
  "memoryOnlyMode (clean st) = memoryOnlyMode st"
  "memoryStorage (clean st) = memoryStorage st"
  "pendingGotchiState (clean st) = pendingGotchiState st"
  "pendingFeedingRecords (clean st) = pendingFeedingRecords st"
  "pendingExpressions (clean st) = pendingExpressions st"
  "gotchiSaveTimer (clean st) = gotchiSaveTimer st"
  "feedingSaveTimer (clean st) = feedingSaveTimer st"
  "expressionSaveTimer (clean st) = expressionSaveTimer st"
  by (simp_all add: clean_def)

lemma engine_fields_removeItem [simp]:
  "memoryOnlyMode (removeItem k st) = memoryOnlyMode st"
  "memoryStorage (removeItem k st) = memoryStorage st"
  "pendingGotchiState (removeItem k st) = pendingGotchiState st"
  "pendingFeedingRecords (removeItem k st) = pendingFeedingRecords st"
  "pendingExpressions (removeItem k st) = pendingExpressions st"
  "gotchiSaveTimer (removeItem k st) = gotchiSaveTimer st"
  "feedingSaveTimer (removeItem k st) = feedingSaveTimer st"
  "expressionSaveTimer (removeItem k st) = expressionSaveTimer st"
  by (simp_all add: removeItem_def)

lemma getItem_put [simp]:
  "getItem (put k v st) k' = (if k' = k then Some v else getItem st k')"
  by (simp add: getItem_def put_def update_conv')

lemma getItem_clean [simp]:
  "getItem (clean st) k' = (if k' = testKey then None else getItem st k')"
  by (simp add: getItem_def clean_def delete_conv')

lemma getItem_other_fields [simp]:
  "getItem (st\<lparr>memoryOnlyMode := a\<rparr>) k = getItem st k"
  "getItem (st\<lparr>memoryStorage := b\<rparr>) k = getItem st k"
  "getItem (st\<lparr>pendingGotchiState := c\<rparr>) k = getItem st k"
  "getItem (st\<lparr>pendingFeedingRecords := d\<rparr>) k = getItem st k"
  "getItem (st\<lparr>pendingExpressions := e\<rparr>) k = getItem st k"
  "getItem (st\<lparr>gotchiSaveTimer := t1\<rparr>) k = getItem st k"
  "getItem (st\<lparr>feedingSaveTimer := t2\<rparr>) k = getItem st k"
  "getItem (st\<lparr>expressionSaveTimer := t3\<rparr>) k = getItem st k"
  by (simp_all add: getItem_def)

lemma content_fields:
  "c_memoryOnly (content_of st) = memoryOnlyMode st"
  "c_memory (content_of st) = memoryStorage st"
  "c_gotchi (content_of st) = storedGotchi st"
  "c_feeding (content_of st) = storedFeedingHistory st"
  "c_expressions (content_of st) = storedExpressions st"
  "c_pendingGotchi (content_of st) = pendingGotchiState st"
  "c_pendingFeeding (content_of st) = pendingFeedingRecords st"
  "c_pendingExpressions (content_of st) = pendingExpressions st"
  "c_timers (content_of st) = (gotchiSaveTimer st, feedingSaveTimer st, expressionSaveTimer st)"
  by (simp_all add: content_of_def)

lemmas stored_defs = storedGotchi_def storedFeedingHistory_def storedExpressions_def

lemma content_clean [simp]: "content_of (clean st) = content_of st"
  by (simp add: content_of_def stored_defs)

lemma content_put_feeding:
  "\<not> memoryOnlyMode st \<Longrightarrow>
   content_of (put FEEDING_HISTORY_KEY (JSON_stringify (JArr xs)) st) = (content_of st)\<lparr>c_feeding := xs\<rparr>"
  by (simp add: content_of_def stored_defs)

lemma content_put_expressions:
  "\<not> memoryOnlyMode st \<Longrightarrow>
   content_of (put EXPRESSIONS_KEY (JSON_stringify (JArr xs)) st) = (content_of st)\<lparr>c_expressions := xs\<rparr>"
  by (simp add: content_of_def stored_defs)

lemma content_put_gotchi:
  "\<not> memoryOnlyMode st \<Longrightarrow>
   content_of (put GOTCHI_KEY (JSON_stringify g) st) =
     (content_of st)\<lparr>c_gotchi := (if isValidGotchiState g then Some g else None)\<rparr>"
  by (simp add: content_of_def stored_defs)

lemma content_remove_feeding:
  "storedFeedingHistory st = [] \<Longrightarrow> content_of (removeItem FEEDING_HISTORY_KEY st) = content_of st"
  by (cases "memoryOnlyMode st") (auto simp add: content_of_def stored_defs split: option.splits jsval.splits if_splits)

lemma content_remove_expressions:
  "storedExpressions st = [] \<Longrightarrow> content_of (removeItem EXPRESSIONS_KEY st) = content_of st"
  by (cases "memoryOnlyMode st") (auto simp add: content_of_def stored_defs split: option.splits jsval.splits if_splits)

lemma content_remove_gotchi:
  "storedGotchi st = None \<Longrightarrow> content_of (removeItem GOTCHI_KEY st) = content_of st"
  by (cases "memoryOnlyMode st") (auto simp add: content_of_def stored_defs split: option.splits jsval.splits if_splits)

lemma slice_neg_Nil [simp]: "slice_neg [] n = []"
  by (simp add: slice_neg_def)

lemma probe_ls:
  "accepts_all B \<Longrightarrow> \<not> memoryOnlyMode st \<Longrightarrow> isLocalStorageAvailable B st = (True, clean st)"
  by (simp add: probe_accepted accepts_all_def clean_def)

lemma setItem_ls: "accepts_all B \<Longrightarrow> setItem B k v st = Inr (put k v st)"
  by (simp add: setItem_def accepts_all_def put_def)

lemma getFeedingHistory_ls:
  assumes "accepts_all B" "\<not> memoryOnlyMode st"
  shows "fst (getFeedingHistory B limit st) = slice_neg (storedFeedingHistory st) limit"
    and "content_of (snd (getFeedingHistory B limit st)) = content_of st"
  using assms
  by (auto simp add: getFeedingHistory_def probe_ls storedFeedingHistory_def content_remove_feeding
      split: option.splits jsval.splits)

lemma getExpressions_ls:
  assumes "accepts_all B" "\<not> memoryOnlyMode st"
  shows "fst (getExpressions B limit st) = slice_neg (storedExpressions st) limit"
    and "content_of (snd (getExpressions B limit st)) = content_of st"
  using assms
  by (auto simp add: getExpressions_def probe_ls storedExpressions_def content_remove_expressions
      split: option.splits jsval.splits)

lemma loadGotchi_ls:
  assumes "accepts_all B" "\<not> memoryOnlyMode st"
  shows "fst (loadGotchi B st) = storedGotchi st"
    and "content_of (snd (loadGotchi B st)) = content_of st"
  using assms
  by (auto simp add: loadGotchi_def probe_ls storedGotchi_def content_remove_gotchi
      split: option.splits)

lemmas to_content = content_fields [symmetric]

lemma content_put_feeding':
  "\<not> c_memoryOnly (content_of st) \<Longrightarrow>
   content_of (put FEEDING_HISTORY_KEY (JSON_stringify (JArr xs)) st) = (content_of st)\<lparr>c_feeding := xs\<rparr>"
  by (simp add: content_put_feeding content_fields)

lemma content_put_expressions':
  "\<not> c_memoryOnly (content_of st) \<Longrightarrow>
   content_of (put EXPRESSIONS_KEY (JSON_stringify (JArr xs)) st) = (content_of st)\<lparr>c_expressions := xs\<rparr>"
  by (simp add: content_put_expressions content_fields)

lemma content_put_gotchi':
  "\<not> c_memoryOnly (content_of st) \<Longrightarrow>
   content_of (put GOTCHI_KEY (JSON_stringify g) st) =
     (content_of st)\<lparr>c_gotchi := (if isValidGotchiState g then Some g else None)\<rparr>"
  by (simp add: content_put_gotchi content_fields)

lemma probe_ls':
  "accepts_all B \<Longrightarrow> \<not> c_memoryOnly (content_of st) \<Longrightarrow> isLocalStorageAvailable B st = (True, clean st)"
  by (simp add: probe_ls content_fields)

lemma reads_ls:
  assumes "accepts_all B" "\<not> c_memoryOnly (content_of st)"
  shows "fst (getFeedingHistory B limit st) = slice_neg (c_feeding (content_of st)) limit"
    and "content_of (snd (getFeedingHistory B limit st)) = content_of st"
    and "fst (getExpressions B limit st) = slice_neg (c_expressions (content_of st)) limit"
    and "content_of (snd (getExpressions B limit st)) = content_of st"
    and "fst (loadGotchi B st) = c_gotchi (content_of st)"
    and "content_of (snd (loadGotchi B st)) = content_of st"
  using assms by (simp_all add: getFeedingHistory_ls getExpressions_ls loadGotchi_ls content_fields)

lemmas ls_simps = probe_ls' setItem_ls reads_ls content_put_feeding' content_put_expressions'
  content_put_gotchi' content_clean split_def Let_def

lemma pruneOldData_ls:
  assumes "accepts_all B" "\<not> memoryOnlyMode st"
  shows "content_of (pruneOldData B st) =
    (content_of st)\<lparr>c_feeding := prune_list MAX_FEEDING_RECORDS (storedFeedingHistory st),
                    c_expressions := prune_list MAX_EXPRESSIONS (storedExpressions st)\<rparr>"
  using assms unfolding pruneOldData_def
  by (simp add: to_content ls_simps prune_list_def)

lemma slice_neg_eq_Nil: "0 < n \<Longrightarrow> slice_neg xs n = [] \<longleftrightarrow> xs = []"
proof -
  have "length xs = 0" if "length xs \<le> length xs - n" "0 < n"
    using that by arith
  then show "0 < n \<Longrightarrow> slice_neg xs n = [] \<longleftrightarrow> xs = []"
    by (auto simp add: slice_neg_def)
qed

lemma max_positive [simp]: "0 < MAX_FEEDING_RECORDS" "0 < MAX_EXPRESSIONS"
  by (simp_all add: MAX_FEEDING_RECORDS_def MAX_EXPRESSIONS_def)

lemma valid_truthy: "isValidGotchiState g \<Longrightarrow> truthy g"
  by (simp add: isValidGotchiState_def)

lemma storedGotchi_valid: "\<not> memoryOnlyMode st \<Longrightarrow> storedGotchi st = Some g \<Longrightarrow> isValidGotchiState g"
  by (auto simp add: storedGotchi_def split: option.splits if_splits)

lemma if_Inr: "(if c then Inr a else Inr b) = Inr (if c then a else b)"
  by simp

lemma compressStoredData_ls:
  assumes "accepts_all B" "\<not> memoryOnlyMode st"
  shows "content_of (compressStoredData B st) =
    (content_of st)\<lparr>c_feeding := slice_neg (storedFeedingHistory st) MAX_FEEDING_RECORDS,
                    c_expressions := slice_neg (storedExpressions st) MAX_EXPRESSIONS\<rparr>"
proof -
  let ?c = "content_of st"
  define st1 where "st1 = clean st"
  define h where "h = fst (getFeedingHistory B MAX_FEEDING_RECORDS st1)"
  define st2 where "st2 = snd (getFeedingHistory B MAX_FEEDING_RECORDS st1)"
  define st3 where "st3 = (if 0 < length h then put FEEDING_HISTORY_KEY (JSON_stringify (JArr h)) st2 else st2)"
  define e where "e = fst (getExpressions B MAX_EXPRESSIONS st3)"
  define st4 where "st4 = snd (getExpressions B MAX_EXPRESSIONS st3)"
  define st5 where "st5 = (if 0 < length e then put EXPRESSIONS_KEY (JSON_stringify (JArr e)) st4 else st4)"
  define g where "g = fst (loadGotchi B st5)"
  define st6 where "st6 = snd (loadGotchi B st5)"
  define st7 where "st7 = (case g of None \<Rightarrow> st6
     | Some v \<Rightarrow> if truthy v then put GOTCHI_KEY (JSON_stringify v) st6 else st6)"
  have run: "compressStoredData B st = st7"
    unfolding compressStoredData_def st7_def st6_def g_def st5_def st4_def e_def st3_def st2_def
      h_def st1_def
    using assms
    by (simp add: probe_ls setItem_ls if_Inr split_def split: option.splits)
  have m: "\<not> c_memoryOnly ?c" using assms(2) by (simp add: content_fields)
  have c1: "content_of st1 = ?c" by (simp add: st1_def)
  have c2: "content_of st2 = ?c" and hh: "h = slice_neg (c_feeding ?c) MAX_FEEDING_RECORDS"
    using reads_ls(1,2) [OF assms(1), of st1] m c1 by (simp_all add: st2_def h_def)
  have c3: "content_of st3 = ?c\<lparr>c_feeding := h\<rparr>"
  proof (cases "0 < length h")
    case True
    then show ?thesis using content_put_feeding' [of st2 h] m c2 by (simp add: st3_def)
  next
    case False
    then have "c_feeding ?c = []"
      using hh slice_neg_eq_Nil [of MAX_FEEDING_RECORDS "c_feeding ?c"] by simp
    with False show ?thesis using c2 by (simp add: st3_def)
  qed
  have m3: "\<not> c_memoryOnly (content_of st3)" using c3 m by simp
  have c4: "content_of st4 = ?c\<lparr>c_feeding := h\<rparr>"
    and ee: "e = slice_neg (c_expressions ?c) MAX_EXPRESSIONS"
    using reads_ls(3,4) [OF assms(1) m3] c3 by (simp_all add: st4_def e_def)
  have m4: "\<not> c_memoryOnly (content_of st4)" using c4 m by simp
  have c5: "content_of st5 = ?c\<lparr>c_feeding := h, c_expressions := e\<rparr>"
  proof (cases "0 < length e")
    case True
    then show ?thesis using content_put_expressions' [OF m4, of e] c4 by (simp add: st5_def)
  next
    case False
    then have "c_expressions ?c = []"
      using ee slice_neg_eq_Nil [of MAX_EXPRESSIONS "c_expressions ?c"] by simp
    with False show ?thesis using c4 by (simp add: st5_def)
  qed
  have m5: "\<not> c_memoryOnly (content_of st5)" using c5 m by simp
  have c6: "content_of st6 = ?c\<lparr>c_feeding := h, c_expressions := e\<rparr>"
    and gg: "g = c_gotchi ?c"
    using reads_ls(5,6) [OF assms(1) m5] c5 by (simp_all add: st6_def g_def)
  have m6: "\<not> c_memoryOnly (content_of st6)" using c6 m by simp
  have c7: "content_of st7 = ?c\<lparr>c_feeding := h, c_expressions := e\<rparr>"
  proof (cases g)
    case None
    then show ?thesis using c6 by (simp add: st7_def)
  next
    case (Some v)
    then have v: "isValidGotchiState v"
      using gg storedGotchi_valid [OF assms(2), of v] by (simp add: content_fields)
    then have "truthy v" by (rule valid_truthy)
    then show ?thesis
      using Some v content_put_gotchi' [OF m6, of v] c6 gg by (simp add: st7_def)
  qed
  show ?thesis using run c7 hh ee by (simp add: content_fields)
qed

lemma trims_refl [simp]: "trims c c"
  by (simp add: trims_def)


lemma trims_fields:
  assumes "trims c c'"
  shows "c_memoryOnly c' = c_memoryOnly c" "c_memory c' = c_memory c" "c_gotchi c' = c_gotchi c"
    "c_pendingGotchi c' = c_pendingGotchi c" "c_pendingFeeding c' = c_pendingFeeding c"
    "c_pendingExpressions c' = c_pendingExpressions c" "c_timers c' = c_timers c"
    "suffix (c_feeding c') (c_feeding c)" "suffix (c_expressions c') (c_expressions c)"
proof -
  have e: "c' = c\<lparr>c_feeding := c_feeding c', c_expressions := c_expressions c'\<rparr>"
    using assms by (simp add: trims_def)
  show "c_memoryOnly c' = c_memoryOnly c" by (subst e) simp
  show "c_memory c' = c_memory c" by (subst e) simp
  show "c_gotchi c' = c_gotchi c" by (subst e) simp
  show "c_pendingGotchi c' = c_pendingGotchi c" by (subst e) simp
  show "c_pendingFeeding c' = c_pendingFeeding c" by (subst e) simp
  show "c_pendingExpressions c' = c_pendingExpressions c" by (subst e) simp
  show "c_timers c' = c_timers c" by (subst e) simp
  show "suffix (c_feeding c') (c_feeding c)" "suffix (c_expressions c') (c_expressions c)"
    using assms by (simp_all add: trims_def)
qed

lemma trimsI:
  "suffix f (c_feeding c) \<Longrightarrow> suffix e (c_expressions c) \<Longrightarrow>
   trims c (c\<lparr>c_feeding := f, c_expressions := e\<rparr>)"
  by (simp add: trims_def)

lemma suffix_slice_neg [simp]: "suffix (slice_neg xs n) xs"
  by (simp add: slice_neg_def suffix_drop)

lemma suffix_prune_list [simp]: "suffix (prune_list cap xs) xs"
  unfolding prune_list_def Let_def
  by (rule suffix_order.trans [OF suffix_slice_neg suffix_slice_neg])


lemma slice_neg_short: "length xs \<le> n \<Longrightarrow> slice_neg xs n = xs"
  by (simp add: slice_neg_def)


lemma compress_trims:
  assumes "accepts_all B" "\<not> memoryOnlyMode st"
  shows "trims (content_of st) (content_of (compressStoredData B st))"
  using compressStoredData_ls [OF assms] by (simp add: trimsI content_fields [symmetric])

lemma trims_mem: "trims (content_of st) (content_of st') \<Longrightarrow> memoryOnlyMode st' = memoryOnlyMode st"
  using trims_fields(1) [of "content_of st" "content_of st'"] by (simp add: content_fields)

lemma checkStorageSize_ls:
  "accepts_all B \<Longrightarrow> \<not> memoryOnlyMode st \<Longrightarrow>
   checkStorageSize B st = (store_size (clean st), clean st)"
  by (simp add: checkStorageSize_def probe_ls store_size_def)

lemma checkAndPruneIfNeeded_ls:
  assumes "accepts_all B" "\<not> memoryOnlyMode st"
  shows "checkAndPruneIfNeeded B st =
    (let st2 = clean (clean st);
         st3 = (if compressionThreshold < store_size st2 \<and> store_size st2 \<le> MAX_STORAGE_SIZE_BYTES
                then compressStoredData B st2 else st2)
     in if MAX_STORAGE_SIZE_BYTES < store_size (clean st3) then pruneOldData B (clean st3)
        else clean st3)"
proof -
  have m2: "\<not> memoryOnlyMode (clean (clean st))" using assms(2) by simp
  have m3: "\<not> memoryOnlyMode (compressStoredData B (clean (clean st)))"
    using trims_mem [OF compress_trims [OF assms(1) m2]] m2 by simp
  show ?thesis
    using assms m2 m3
    by (simp add: checkAndPruneIfNeeded_def probe_ls checkStorageSize_ls Let_def)
qed











subsection \<open>Memory-only mode\<close>




subsection \<open>A save followed by a flush\<close>








subsection \<open>Pruning\<close>

lemma floor_80pct_zero: "floor_80pct n = 0 \<longleftrightarrow> n \<le> 1"
  by (simp add: floor_80pct_def) arith

lemma floor_80pct_le: "floor_80pct n \<le> n"
  by (simp add: floor_80pct_def)

lemma length_slice_floor:
  "length (slice_neg xs (floor_80pct (length xs))) =
     (if length xs = 1 then 1 else floor_80pct (length xs))"
  using floor_80pct_zero [of "length xs"] floor_80pct_le [of "length xs"]
  by (auto simp add: slice_neg_def)

lemma prune_list_within: "length xs \<le> cap \<Longrightarrow> prune_list cap xs = slice_neg xs (floor_80pct (length xs))"
  by (simp add: prune_list_def slice_neg_short)

lemma pruneOldData_memory:
  assumes "memoryOnlyMode st"
  shows "pruneOldData B st =
    st\<lparr>memoryStorage := (memoryStorage st)
      \<lparr>feedingHistory := slice_neg (feedingHistory (memoryStorage st))
                           (floor_80pct (length (feedingHistory (memoryStorage st)))),
       expressions := slice_neg (expressions (memoryStorage st))
                           (floor_80pct (length (expressions (memoryStorage st))))\<rparr>\<rparr>"
  using assms by (simp add: pruneOldData_def Let_def)

lemma pruneOldData_stores:
  assumes "accepts_all B \<or> memoryOnlyMode st"
    and "length (storedFeedingHistory st) \<le> MAX_FEEDING_RECORDS"
    and "length (storedExpressions st) \<le> MAX_EXPRESSIONS"
  shows "storedFeedingHistory (pruneOldData B st) =
           slice_neg (storedFeedingHistory st) (floor_80pct (length (storedFeedingHistory st)))"
    and "storedExpressions (pruneOldData B st) =
           slice_neg (storedExpressions st) (floor_80pct (length (storedExpressions st)))"
proof -
  have "storedFeedingHistory (pruneOldData B st) =
           slice_neg (storedFeedingHistory st) (floor_80pct (length (storedFeedingHistory st))) \<and>
        storedExpressions (pruneOldData B st) =
           slice_neg (storedExpressions st) (floor_80pct (length (storedExpressions st)))"
  proof (cases "memoryOnlyMode st")
    case True
    then show ?thesis by (simp add: pruneOldData_memory stored_defs)
  next
    case False
    then have a: "accepts_all B" using assms(1) by simp
    have "content_of (pruneOldData B st) =
      (content_of st)\<lparr>c_feeding := prune_list MAX_FEEDING_RECORDS (storedFeedingHistory st),
                      c_expressions := prune_list MAX_EXPRESSIONS (storedExpressions st)\<rparr>"
      by (rule pruneOldData_ls [OF a False])
    then have "c_feeding (content_of (pruneOldData B st)) = prune_list MAX_FEEDING_RECORDS (storedFeedingHistory st)"
      "c_expressions (content_of (pruneOldData B st)) = prune_list MAX_EXPRESSIONS (storedExpressions st)"
      by simp_all
    then show ?thesis
      using assms(2,3) by (simp add: content_fields prune_list_within)
  qed
  then show "storedFeedingHistory (pruneOldData B st) =
           slice_neg (storedFeedingHistory st) (floor_80pct (length (storedFeedingHistory st)))"
    and "storedExpressions (pruneOldData B st) =
           slice_neg (storedExpressions st) (floor_80pct (length (storedExpressions st)))"
    by simp_all
qed

lemma single_facts:
  "accepts_all browser_ok" "\<not> memoryOnlyMode single"
  "storedFeedingHistory single = [feed ''f1'']" "storedExpressions single = []"
  "memoryOnlyMode single_memory"
  "storedFeedingHistory single_memory = [feed ''f1'']" "storedExpressions single_memory = []"
  by (simp_all add: accepts_all_def browser_ok_def single_def single_memory_def initial_def
      stored_defs getItem_def)

lemma stocked_facts:
  "\<not> memoryOnlyMode stocked"
  "storedFeedingHistory stocked = [feed ''f1'', feed ''f2'', feed ''f3'']"
  "storedExpressions stocked = [art ''a1'', art ''a2'']"
  by (simp_all add: stocked_def initial_def stored_defs getItem_def)

subsection \<open>Compression\<close>

lemmas json_eval = JSON_parse_def skip_ws_def is_ws_def parse_num_def is_digit_def mk_num_def
  read_digits_def digit_val_def unescape_def

lemma spaced_texts:
  "JSON_parse spaced_gotchi = Some tiny_gotchi"
  "JSON_parse spaced_feeding = Some (JArr [JObj [(''id'', JStr ''f1'')]])"
  by (simp_all add: spaced_gotchi_def spaced_feeding_def tiny_gotchi_def json_eval)

lemma compact_texts:
  \<open>JSON_stringify tiny_gotchi =
     ''{"id":"g1","stage":1,"feedingCount":0,"emotionVector":{},"createdAt":0}''\<close>
  \<open>JSON_stringify (JArr [JObj [(''id'', JStr ''f1'')]]) = ''[{"id":"f1"}]''\<close>
  by (simp_all add: tiny_gotchi_def JSON_stringify.simps show_str_def show_num_def show_nat.simps
      digit_char_def)

lemma escape_replicate_A: "escape (replicate n (CHR ''A'')) = replicate n (CHR ''A'')"
  by (induction n) simp_all

lemma length_big_art: "length (JSON_stringify (JArr [big_art n])) = n + 27"
  by (simp add: big_art_def JSON_stringify.simps show_str_def escape_replicate_A)

lemma clean_clean [simp]: "clean (clean st) = clean st"
  by (simp add: clean_def delete_idem)

lemma reads_keep_keys:
  assumes "accepts_all B" "\<not> memoryOnlyMode st" "k \<noteq> testKey"
  shows "k \<noteq> FEEDING_HISTORY_KEY \<Longrightarrow> getItem (snd (getFeedingHistory B limit st)) k = getItem st k"
    and "k \<noteq> EXPRESSIONS_KEY \<Longrightarrow> getItem (snd (getExpressions B limit st)) k = getItem st k"
    and "k \<noteq> GOTCHI_KEY \<Longrightarrow> getItem (snd (loadGotchi B st)) k = getItem st k"
  using assms
  by (auto simp add: getFeedingHistory_def getExpressions_def loadGotchi_def probe_ls
      split: option.splits jsval.splits)

lemma reads_not_memory:
  assumes "accepts_all B" "\<not> memoryOnlyMode st"
  shows "\<not> memoryOnlyMode (snd (getFeedingHistory B limit st))"
    "\<not> memoryOnlyMode (snd (getExpressions B limit st))"
    "\<not> memoryOnlyMode (snd (loadGotchi B st))"
  using getFeedingHistory_ls(2) [OF assms, of limit] getExpressions_ls(2) [OF assms, of limit]
    loadGotchi_ls(2) [OF assms] assms(2)
  by (simp_all add: content_fields [symmetric])

lemma compressStoredData_run:
  assumes "accepts_all B" "\<not> memoryOnlyMode st"
  shows "compressStoredData B st =
    (let r1 = getFeedingHistory B MAX_FEEDING_RECORDS (clean st);
         st3 = (if 0 < length (fst r1)
                then put FEEDING_HISTORY_KEY (JSON_stringify (JArr (fst r1))) (snd r1) else snd r1);
         r2 = getExpressions B MAX_EXPRESSIONS st3;
         st5 = (if 0 < length (fst r2)
                then put EXPRESSIONS_KEY (JSON_stringify (JArr (fst r2))) (snd r2) else snd r2);
         r3 = loadGotchi B st5
     in case fst r3 of None \<Rightarrow> snd r3
        | Some v \<Rightarrow> if truthy v then put GOTCHI_KEY (JSON_stringify v) (snd r3) else snd r3)"
  using assms unfolding compressStoredData_def Let_def
  by (simp add: probe_ls setItem_ls if_Inr split_def split: option.splits)

lemma compressStoredData_texts:
  assumes "accepts_all B" "\<not> memoryOnlyMode st"
    and "length (storedFeedingHistory st) \<le> MAX_FEEDING_RECORDS"
    and "length (storedExpressions st) \<le> MAX_EXPRESSIONS"
  shows "storedFeedingHistory st \<noteq> [] \<Longrightarrow>
           getItem (compressStoredData B st) FEEDING_HISTORY_KEY =
             Some (JSON_stringify (JArr (storedFeedingHistory st)))"
    and "storedExpressions st \<noteq> [] \<Longrightarrow>
           getItem (compressStoredData B st) EXPRESSIONS_KEY =
             Some (JSON_stringify (JArr (storedExpressions st)))"
    and "storedGotchi st = Some g \<Longrightarrow>
           getItem (compressStoredData B st) GOTCHI_KEY = Some (JSON_stringify g)"
    and "content_of (compressStoredData B st) = content_of st"
proof -
  define st1 where "st1 = clean st"
  define r1 where "r1 = getFeedingHistory B MAX_FEEDING_RECORDS st1"
  define st3 where "st3 = (if 0 < length (fst r1)
                then put FEEDING_HISTORY_KEY (JSON_stringify (JArr (fst r1))) (snd r1) else snd r1)"
  define r2 where "r2 = getExpressions B MAX_EXPRESSIONS st3"
  define st5 where "st5 = (if 0 < length (fst r2)
                then put EXPRESSIONS_KEY (JSON_stringify (JArr (fst r2))) (snd r2) else snd r2)"
  define r3 where "r3 = loadGotchi B st5"
  define st7 where "st7 = (case fst r3 of None \<Rightarrow> snd r3
        | Some v \<Rightarrow> if truthy v then put GOTCHI_KEY (JSON_stringify v) (snd r3) else snd r3)"
  have run: "compressStoredData B st = st7"
    unfolding compressStoredData_run [OF assms(1,2)] Let_def st7_def r3_def st5_def r2_def st3_def
      r1_def st1_def ..
  have c: "content_of (compressStoredData B st) = content_of st"
    using compressStoredData_ls [OF assms(1,2)] assms(3,4)
    by (simp add: slice_neg_short content_of_def)
  show "content_of (compressStoredData B st) = content_of st" by (rule c)
  have m1: "\<not> memoryOnlyMode st1" using assms(2) by (simp add: st1_def)
  have h: "fst r1 = storedFeedingHistory st"
    using getFeedingHistory_ls(1) [OF assms(1) m1, of MAX_FEEDING_RECORDS] assms(3)
      content_clean [of st]
    by (simp add: r1_def st1_def slice_neg_short content_of_def)
  have m2: "\<not> memoryOnlyMode (snd r1)"
    using reads_not_memory(1) [OF assms(1) m1] by (simp add: r1_def)
  have m3: "\<not> memoryOnlyMode st3" using m2 by (simp add: st3_def)
  have m4: "\<not> memoryOnlyMode (snd r2)"
    using reads_not_memory(2) [OF assms(1) m3] by (simp add: r2_def)
  have m5: "\<not> memoryOnlyMode st5" using m4 by (simp add: st5_def)
  have k4: "getItem (snd r2) k = getItem st3 k" if "k \<noteq> testKey" "k \<noteq> EXPRESSIONS_KEY" for k
    using reads_keep_keys(2) [OF assms(1) m3 that(1) that(2)] by (simp add: r2_def)
  have k6: "getItem (snd r3) k = getItem st5 k" if "k \<noteq> testKey" "k \<noteq> GOTCHI_KEY" for k
    using reads_keep_keys(3) [OF assms(1) m5 that(1) that(2)] by (simp add: r3_def)
  have k7: "getItem st7 k = getItem (snd r3) k" if "k \<noteq> GOTCHI_KEY" for k
    using that by (simp add: st7_def split: option.splits)
  have c3: "content_of st3 = content_of st"
  proof (cases "0 < length (fst r1)")
    case True
    have "content_of (snd r1) = content_of st"
      using getFeedingHistory_ls(2) [OF assms(1) m1, of MAX_FEEDING_RECORDS]
      by (simp add: r1_def st1_def)
    then show ?thesis
      using True content_put_feeding [OF m2, of "fst r1"] h by (simp add: st3_def content_of_def)
  next
    case False
    then show ?thesis
      using getFeedingHistory_ls(2) [OF assms(1) m1, of MAX_FEEDING_RECORDS]
      by (simp add: st3_def r1_def st1_def)
  qed
  have e: "fst r2 = storedExpressions st"
    using getExpressions_ls(1) [OF assms(1) m3, of MAX_EXPRESSIONS] assms(4) c3
    by (simp add: r2_def slice_neg_short content_of_def)
  have c5: "content_of st5 = content_of st"
  proof (cases "0 < length (fst r2)")
    case True
    have "content_of (snd r2) = content_of st"
      using getExpressions_ls(2) [OF assms(1) m3, of MAX_EXPRESSIONS] c3 by (simp add: r2_def)
    then show ?thesis
      using True content_put_expressions [OF m4, of "fst r2"] e by (simp add: st5_def content_of_def)
  next
    case False
    then show ?thesis
      using getExpressions_ls(2) [OF assms(1) m3, of MAX_EXPRESSIONS] c3
      by (simp add: st5_def r2_def)
  qed
  have g3: "fst r3 = storedGotchi st"
    using loadGotchi_ls(1) [OF assms(1) m5] c5 by (simp add: r3_def content_of_def)
  show "getItem (compressStoredData B st) FEEDING_HISTORY_KEY =
      Some (JSON_stringify (JArr (storedFeedingHistory st)))" if "storedFeedingHistory st \<noteq> []"
  proof -
    have "getItem st3 FEEDING_HISTORY_KEY = Some (JSON_stringify (JArr (storedFeedingHistory st)))"
      using that h by (simp add: st3_def)
    moreover have "getItem st5 FEEDING_HISTORY_KEY = getItem st3 FEEDING_HISTORY_KEY"
      using k4 [of FEEDING_HISTORY_KEY] by (simp add: st5_def)
    ultimately show ?thesis
      using k7 [of FEEDING_HISTORY_KEY] k6 [of FEEDING_HISTORY_KEY] by (simp add: run)
  qed
  show "getItem (compressStoredData B st) EXPRESSIONS_KEY =
      Some (JSON_stringify (JArr (storedExpressions st)))" if "storedExpressions st \<noteq> []"
  proof -
    have "getItem st5 EXPRESSIONS_KEY = Some (JSON_stringify (JArr (storedExpressions st)))"
      using that e by (simp add: st5_def)
    then show ?thesis
      using k7 [of EXPRESSIONS_KEY] k6 [of EXPRESSIONS_KEY] by (simp add: run)
  qed
  show "getItem (compressStoredData B st) GOTCHI_KEY = Some (JSON_stringify g)"
    if "storedGotchi st = Some g"
  proof -
    have "truthy g" using storedGotchi_valid [OF assms(2) that] by (rule valid_truthy)
    then show ?thesis using that g3 by (simp add: run st7_def)
  qed
qed

lemma pruneOldData_keeps_gotchi_text:
  assumes "accepts_all B" "\<not> memoryOnlyMode st"
  shows "getItem (pruneOldData B st) GOTCHI_KEY = getItem st GOTCHI_KEY"
proof -
  define r1 where "r1 = getFeedingHistory B MAX_FEEDING_RECORDS (clean st)"
  define st3 where "st3 = put FEEDING_HISTORY_KEY
      (JSON_stringify (JArr (slice_neg (fst r1) (floor_80pct (length (fst r1)))))) (snd r1)"
  define r2 where "r2 = getExpressions B MAX_EXPRESSIONS st3"
  have run: "pruneOldData B st = put EXPRESSIONS_KEY
      (JSON_stringify (JArr (slice_neg (fst r2) (floor_80pct (length (fst r2)))))) (snd r2)"
    using assms unfolding pruneOldData_def Let_def r2_def st3_def r1_def
    by (simp add: probe_ls setItem_ls split_def)
  have m1: "\<not> memoryOnlyMode (clean st)" using assms(2) by simp
  have m3: "\<not> memoryOnlyMode st3"
    using reads_not_memory(1) [OF assms(1) m1] by (simp add: st3_def r1_def)
  have "getItem (snd r2) GOTCHI_KEY = getItem st3 GOTCHI_KEY"
    using reads_keep_keys(2) [OF assms(1) m3, of GOTCHI_KEY] by (simp add: r2_def)
  moreover have "getItem (snd r1) GOTCHI_KEY = getItem (clean st) GOTCHI_KEY"
    using reads_keep_keys(1) [OF assms(1) m1, of GOTCHI_KEY] by (simp add: r1_def)
  ultimately show ?thesis by (simp add: run st3_def)
qed

lemma crowded_facts:
  "accepts_all browser_ok" "\<not> memoryOnlyMode (crowded n)"
  "getItem (crowded n) GOTCHI_KEY = Some spaced_gotchi"
  "getItem (crowded n) FEEDING_HISTORY_KEY = Some spaced_feeding"
  "storedGotchi (crowded n) = Some tiny_gotchi"
  "storedFeedingHistory (crowded n) = [JObj [(''id'', JStr ''f1'')]]"
  "storedExpressions (crowded n) = [big_art n]"
  by (simp_all add: accepts_all_def browser_ok_def crowded_def initial_def stored_defs getItem_def
      spaced_texts isValidGotchiState_def tiny_gotchi_def)

lemma crowded_size:
  "fst (checkStorageSize browser_ok (crowded n)) = 2 * n + 378"
  by (simp add: checkStorageSize_ls crowded_facts store_size_def clean_def crowded_def initial_def
      entry_size_def length_big_art spaced_gotchi_def spaced_feeding_def
      GOTCHI_KEY_def FEEDING_HISTORY_KEY_def EXPRESSIONS_KEY_def STORAGE_KEY_PREFIX_def testKey_def)

lemma texts_differ:
  "spaced_gotchi \<noteq> JSON_stringify tiny_gotchi"
  "spaced_feeding \<noteq> JSON_stringify (JArr [JObj [(''id'', JStr ''f1'')]])"
  by (simp_all add: compact_texts spaced_gotchi_def spaced_feeding_def)

section \<open>The claims\<close>

subsection \<open>C1: a rejected import changes nothing\<close>



subsection \<open>C2: saving, flushing and loading the Gotchi\<close>



subsection \<open>C3: the histories stay within their caps\<close>



subsection \<open>C4: what pruning keeps\<close>

text \<open>
  C4, as the code has it. With both stores within their caps (at most 1000 feeding records
  and 500 expressions), the browser accepting every write or the service in memory-only
  mode, \<^verbatim>\<open>pruneOldData\<close> leaves in each store the most recent \<open>floor(N * 0.8)\<close> of its
  \<open>N\<close> entries, except that a store of exactly one entry keeps that entry.
\<close>

theorem prune_keeps_recent:
  assumes "accepts_all B \<or> memoryOnlyMode st"
    and "length (storedFeedingHistory st) \<le> MAX_FEEDING_RECORDS"
    and "length (storedExpressions st) \<le> MAX_EXPRESSIONS"
  shows "length (storedFeedingHistory (pruneOldData B st)) =
           (if length (storedFeedingHistory st) = 1 then 1
            else floor_80pct (length (storedFeedingHistory st))) \<and>
         suffix (storedFeedingHistory (pruneOldData B st)) (storedFeedingHistory st) \<and>
         length (storedExpressions (pruneOldData B st)) =
           (if length (storedExpressions st) = 1 then 1
            else floor_80pct (length (storedExpressions st))) \<and>
         suffix (storedExpressions (pruneOldData B st)) (storedExpressions st)"
  unfolding pruneOldData_stores [OF assms] length_slice_floor by simp

theorem prune_keeps_recent_witness:
  "accepts_all browser_ok \<and>
   length (storedFeedingHistory stocked) \<le> MAX_FEEDING_RECORDS \<and>
   length (storedExpressions stocked) \<le> MAX_EXPRESSIONS \<and>
   length (storedFeedingHistory (pruneOldData browser_ok stocked)) = 2 \<and>
   suffix (storedFeedingHistory (pruneOldData browser_ok stocked)) [feed ''f1'', feed ''f2'', feed ''f3''] \<and>
   length (storedExpressions (pruneOldData browser_ok stocked)) = 1 \<and>
   suffix (storedExpressions (pruneOldData browser_ok stocked)) [art ''a1'', art ''a2'']"
  using prune_keeps_recent [of browser_ok stocked] single_facts(1) stocked_facts
  by (simp add: MAX_FEEDING_RECORDS_def MAX_EXPRESSIONS_def floor_80pct_def)

text \<open>
  C4 as worded fails for a store of one entry: \<open>floor(1 * 0.8)\<close> is 0, and
  \<^verbatim>\<open>slice(-0)\<close> keeps the whole array, so the entry survives, in \<^verbatim>\<open>localStorage\<close> and in
  the mirror.
\<close>

theorem prune_single_entry_counterexample:
  "length (storedFeedingHistory single) = 1 \<and> floor_80pct 1 = 0 \<and>
   length (storedFeedingHistory (pruneOldData browser_ok single)) = 1 \<and>
   length (storedFeedingHistory single_memory) = 1 \<and>
   length (storedFeedingHistory (pruneOldData browser_ok single_memory)) = 1"
proof -
  have 1: "storedFeedingHistory (pruneOldData browser_ok single) = [feed ''f1'']"
    using pruneOldData_stores(1) [of browser_ok single] single_facts
    by (simp add: MAX_FEEDING_RECORDS_def MAX_EXPRESSIONS_def floor_80pct_def slice_neg_def)
  have 2: "storedFeedingHistory (pruneOldData browser_ok single_memory) = [feed ''f1'']"
    using pruneOldData_stores(1) [of browser_ok single_memory] single_facts
    by (simp add: MAX_FEEDING_RECORDS_def MAX_EXPRESSIONS_def floor_80pct_def slice_neg_def)
  show ?thesis using 1 2 single_facts by (simp add: floor_80pct_def)
qed

subsection \<open>C5: pruning a store of at most one entry\<close>

text \<open>
  C5. With the browser accepting every write, or in memory-only mode, \<^verbatim>\<open>pruneOldData\<close>
  leaves the content of a feeding history of at most one record unchanged, and likewise
  that of an expressions store of at most one entry; when both are that small, nothing that
  the service can observe changes.
\<close>

theorem prune_small_store_unchanged:
  assumes "accepts_all B \<or> memoryOnlyMode st"
  shows "(length (storedFeedingHistory st) \<le> 1 \<longrightarrow>
            storedFeedingHistory (pruneOldData B st) = storedFeedingHistory st) \<and>
         (length (storedExpressions st) \<le> 1 \<longrightarrow>
            storedExpressions (pruneOldData B st) = storedExpressions st) \<and>
         (length (storedFeedingHistory st) \<le> 1 \<and> length (storedExpressions st) \<le> 1 \<longrightarrow>
            content_of (pruneOldData B st) = content_of st)"
proof -
  have small: "length xs \<le> 1 \<Longrightarrow> 0 < cap \<Longrightarrow> prune_list cap xs = xs" for xs :: "jsval list" and cap
    using floor_80pct_zero [of "length xs"]
    by (cases "length xs \<le> cap") (auto simp add: prune_list_def slice_neg_def Let_def)
  have small': "length xs \<le> 1 \<Longrightarrow> slice_neg xs (floor_80pct (length xs)) = xs" for xs :: "jsval list"
    using floor_80pct_zero [of "length xs"] by (simp add: slice_neg_def)
  show ?thesis
  proof (cases "memoryOnlyMode st")
    case True
    then show ?thesis
      by (auto simp add: pruneOldData_memory stored_defs small' content_of_def)
  next
    case False
    then have a: "accepts_all B" using assms by simp
    have c: "content_of (pruneOldData B st) =
      (content_of st)\<lparr>c_feeding := prune_list MAX_FEEDING_RECORDS (storedFeedingHistory st),
                      c_expressions := prune_list MAX_EXPRESSIONS (storedExpressions st)\<rparr>"
      by (rule pruneOldData_ls [OF a False])
    have f: "storedFeedingHistory (pruneOldData B st) = prune_list MAX_FEEDING_RECORDS (storedFeedingHistory st)"
      and e: "storedExpressions (pruneOldData B st) = prune_list MAX_EXPRESSIONS (storedExpressions st)"
      unfolding content_fields [symmetric] c by simp_all
    have "content_of (pruneOldData B st) = content_of st"
      if "length (storedFeedingHistory st) \<le> 1" "length (storedExpressions st) \<le> 1"
      unfolding c using that small [of "storedFeedingHistory st" MAX_FEEDING_RECORDS]
        small [of "storedExpressions st" MAX_EXPRESSIONS]
      by (simp add: content_of_def)
    then show ?thesis
      using f e small [of "storedFeedingHistory st" MAX_FEEDING_RECORDS]
        small [of "storedExpressions st" MAX_EXPRESSIONS]
      by simp
  qed
qed

theorem prune_small_store_unchanged_witness:
  "accepts_all browser_ok \<and> length (storedFeedingHistory single) \<le> 1 \<and>
   length (storedExpressions single) \<le> 1 \<and>
   storedFeedingHistory (pruneOldData browser_ok single) = [feed ''f1''] \<and>
   storedExpressions (pruneOldData browser_ok single) = [] \<and>
   content_of (pruneOldData browser_ok single) = content_of single"
  using prune_small_store_unchanged [of browser_ok single] single_facts by simp

subsection \<open>C6: compaction\<close>

text \<open>
  C6, as the code has it. The capacity check \<^verbatim>\<open>checkAndPruneIfNeeded\<close> runs after a
  successful write of a feeding-history or expressions flush and of the debounced Gotchi
  save. When it measures a size above 80% of the 5 MiB ceiling and not above the ceiling
  itself (the browser accepting writes, both histories within their caps), it runs
  \<^verbatim>\<open>compressStoredData\<close>: every store that is not empty is rewritten as the compact JSON
  text of its content, the content of all three stores stays what it was, and pruning
  follows only if the size measured after the rewrite still exceeds the ceiling.
\<close>

theorem compaction_within_ceiling:
  assumes "accepts_all B" and "\<not> memoryOnlyMode st"
    and "compressionThreshold < fst (checkStorageSize B st)"
    and "fst (checkStorageSize B st) \<le> MAX_STORAGE_SIZE_BYTES"
    and "length (storedFeedingHistory st) \<le> MAX_FEEDING_RECORDS"
    and "length (storedExpressions st) \<le> MAX_EXPRESSIONS"
  shows "let c = compressStoredData B (snd (checkStorageSize B st)) in
     checkAndPruneIfNeeded B st =
       (if MAX_STORAGE_SIZE_BYTES < fst (checkStorageSize B c)
        then pruneOldData B (snd (checkStorageSize B c)) else snd (checkStorageSize B c)) \<and>
     content_of c = content_of st \<and>
     (storedFeedingHistory st \<noteq> [] \<longrightarrow>
        getItem c FEEDING_HISTORY_KEY = Some (JSON_stringify (JArr (storedFeedingHistory st)))) \<and>
     (storedExpressions st \<noteq> [] \<longrightarrow>
        getItem c EXPRESSIONS_KEY = Some (JSON_stringify (JArr (storedExpressions st)))) \<and>
     (\<forall>g. storedGotchi st = Some g \<longrightarrow> getItem c GOTCHI_KEY = Some (JSON_stringify g))"
proof -
  let ?c = "compressStoredData B (clean st)"
  have m: "\<not> memoryOnlyMode (clean st)" using assms(2) by simp
  have sz: "fst (checkStorageSize B st) = store_size (clean st)" "snd (checkStorageSize B st) = clean st"
    using assms(1,2) by (simp_all add: checkStorageSize_ls)
  have l: "length (storedFeedingHistory (clean st)) \<le> MAX_FEEDING_RECORDS"
    "length (storedExpressions (clean st)) \<le> MAX_EXPRESSIONS"
    and v: "storedFeedingHistory (clean st) = storedFeedingHistory st"
      "storedExpressions (clean st) = storedExpressions st"
      "storedGotchi (clean st) = storedGotchi st"
    using assms(5,6) content_clean [of st] by (simp_all add: content_of_def)
  have t: "storedFeedingHistory st \<noteq> [] \<longrightarrow>
        getItem ?c FEEDING_HISTORY_KEY = Some (JSON_stringify (JArr (storedFeedingHistory st)))"
    "storedExpressions st \<noteq> [] \<longrightarrow>
        getItem ?c EXPRESSIONS_KEY = Some (JSON_stringify (JArr (storedExpressions st)))"
    "\<forall>g. storedGotchi st = Some g \<longrightarrow> getItem ?c GOTCHI_KEY = Some (JSON_stringify g)"
    "content_of ?c = content_of st"
    using compressStoredData_texts [OF assms(1) m l] v by simp_all
  have mc: "\<not> memoryOnlyMode ?c"
    using t(4) assms(2) by (simp add: content_fields [symmetric])
  have szc: "fst (checkStorageSize B ?c) = store_size (clean ?c)" "snd (checkStorageSize B ?c) = clean ?c"
    using assms(1) mc by (simp_all add: checkStorageSize_ls)
  have run: "checkAndPruneIfNeeded B st =
       (if MAX_STORAGE_SIZE_BYTES < store_size (clean ?c) then pruneOldData B (clean ?c) else clean ?c)"
    using assms(3,4) unfolding sz checkAndPruneIfNeeded_ls [OF assms(1,2)] Let_def by simp
  show ?thesis
    unfolding Let_def sz(2) szc using run t by simp
qed

theorem compaction_within_ceiling_witness:
  "accepts_all browser_ok \<and> \<not> memoryOnlyMode (crowded 2200000) \<and>
   compressionThreshold < fst (checkStorageSize browser_ok (crowded 2200000)) \<and>
   fst (checkStorageSize browser_ok (crowded 2200000)) \<le> MAX_STORAGE_SIZE_BYTES \<and>
   length (storedFeedingHistory (crowded 2200000)) \<le> MAX_FEEDING_RECORDS \<and>
   length (storedExpressions (crowded 2200000)) \<le> MAX_EXPRESSIONS \<and>
   getItem (crowded 2200000) GOTCHI_KEY = Some spaced_gotchi \<and>
   getItem (compressStoredData browser_ok (snd (checkStorageSize browser_ok (crowded 2200000))))
     GOTCHI_KEY = Some (JSON_stringify tiny_gotchi) \<and>
   getItem (crowded 2200000) FEEDING_HISTORY_KEY = Some spaced_feeding \<and>
   getItem (compressStoredData browser_ok (snd (checkStorageSize browser_ok (crowded 2200000))))
     FEEDING_HISTORY_KEY = Some (JSON_stringify (JArr [JObj [(''id'', JStr ''f1'')]])) \<and>
   content_of (compressStoredData browser_ok (snd (checkStorageSize browser_ok (crowded 2200000)))) =
     content_of (crowded 2200000)"
proof -
  have b: "compressionThreshold < fst (checkStorageSize browser_ok (crowded 2200000))"
    "fst (checkStorageSize browser_ok (crowded 2200000)) \<le> MAX_STORAGE_SIZE_BYTES"
    by (simp_all add: crowded_size compressionThreshold_def MAX_STORAGE_SIZE_BYTES_def)
  have l: "length (storedFeedingHistory (crowded 2200000)) \<le> MAX_FEEDING_RECORDS"
    "length (storedExpressions (crowded 2200000)) \<le> MAX_EXPRESSIONS"
    by (simp_all add: crowded_facts MAX_FEEDING_RECORDS_def MAX_EXPRESSIONS_def)
  show ?thesis
    using compaction_within_ceiling [OF crowded_facts(1,2) b l] b l crowded_facts(1)
      crowded_facts(2-7) [of 2200000]
    by (simp add: Let_def)
qed

text \<open>
  C6 as worded fails twice. Above the ceiling the guard
  \<^verbatim>\<open>currentSize <= MAX_STORAGE_SIZE_BYTES\<close> skips the compaction and the check goes straight
  to pruning: with an image of 2.7 million characters stored, the Gotchi state written with
  white space is still in that form afterwards. And not every flush is followed by the check:
  \<^verbatim>\<open>flushGotchiState\<close> (the Gotchi part of \<^verbatim>\<open>flushAll\<close>) writes and returns, so with
  the size between the threshold and the ceiling the feeding history written with white
  space stays as it is.
\<close>

theorem no_compaction_counterexample:
  "MAX_STORAGE_SIZE_BYTES < fst (checkStorageSize browser_ok (crowded 2700000)) \<and>
   storedGotchi (crowded 2700000) = Some tiny_gotchi \<and>
   getItem (checkAndPruneIfNeeded browser_ok (crowded 2700000)) GOTCHI_KEY = Some spaced_gotchi \<and>
   spaced_gotchi \<noteq> JSON_stringify tiny_gotchi \<and>
   compressionThreshold
     < fst (checkStorageSize browser_ok
         (flushGotchiState browser_ok ((crowded 2200000)\<lparr>pendingGotchiState := Some tiny_gotchi\<rparr>))) \<and>
   fst (checkStorageSize browser_ok
         (flushGotchiState browser_ok ((crowded 2200000)\<lparr>pendingGotchiState := Some tiny_gotchi\<rparr>)))
     \<le> MAX_STORAGE_SIZE_BYTES \<and>
   storedFeedingHistory (crowded 2200000) = [JObj [(''id'', JStr ''f1'')]] \<and>
   getItem (flushGotchiState browser_ok ((crowded 2200000)\<lparr>pendingGotchiState := Some tiny_gotchi\<rparr>))
     FEEDING_HISTORY_KEY = Some spaced_feeding \<and>
   spaced_feeding \<noteq> JSON_stringify (JArr [JObj [(''id'', JStr ''f1'')]])"
proof -
  let ?st = "crowded 2700000"
  have sz: "store_size (clean ?st) = 5400378"
    using crowded_size [of 2700000] crowded_facts(1) crowded_facts(2) [of 2700000]
    by (simp add: checkStorageSize_ls)
  have big: "MAX_STORAGE_SIZE_BYTES < fst (checkStorageSize browser_ok ?st)"
    by (simp add: crowded_size MAX_STORAGE_SIZE_BYTES_def)
  have run: "checkAndPruneIfNeeded browser_ok ?st = pruneOldData browser_ok (clean ?st)"
    unfolding checkAndPruneIfNeeded_ls [OF crowded_facts(1,2)] Let_def
    by (simp add: sz MAX_STORAGE_SIZE_BYTES_def)
  have m: "\<not> memoryOnlyMode (clean ?st)" using crowded_facts(2) [of 2700000] by simp
  have 1: "getItem (checkAndPruneIfNeeded browser_ok ?st) GOTCHI_KEY = Some spaced_gotchi"
    unfolding run pruneOldData_keeps_gotchi_text [OF crowded_facts(1) m]
    using crowded_facts(3) by simp
  let ?p = "(crowded 2200000)\<lparr>pendingGotchiState := Some tiny_gotchi\<rparr>"
  have fl: "flushGotchiState browser_ok ?p =
      (put GOTCHI_KEY (JSON_stringify tiny_gotchi) (clean (?p\<lparr>gotchiSaveTimer := False\<rparr>)))
        \<lparr>pendingGotchiState := None\<rparr>"
    using crowded_facts(1) crowded_facts(2) [of 2200000]
    by (simp add: flushGotchiState_def Let_def probe_ls setItem_ls tiny_gotchi_def)
  have 2: "getItem (flushGotchiState browser_ok ?p) FEEDING_HISTORY_KEY = Some spaced_feeding"
    using crowded_facts(4) [of 2200000] unfolding fl by simp
  have 3: "fst (checkStorageSize browser_ok (flushGotchiState browser_ok ?p)) = 4400356"
    using crowded_facts(1) unfolding fl
    by (simp add: checkStorageSize_ls store_size_def clean_def put_def crowded_def initial_def
        entry_size_def length_big_art compact_texts spaced_feeding_def
        GOTCHI_KEY_def FEEDING_HISTORY_KEY_def EXPRESSIONS_KEY_def STORAGE_KEY_PREFIX_def
        testKey_def)
  show ?thesis
    using big crowded_facts(5) [of 2700000] crowded_facts(6) [of 2200000] 1 2 texts_differ
    by (simp add: 3 compressionThreshold_def MAX_STORAGE_SIZE_BYTES_def)
qed

subsection \<open>C7: loads discard corrupted text\<close>





subsection \<open>C8: falling back to the memory mirror\<close>

text \<open>
  C8. When the browser rejects every write, \<^verbatim>\<open>saveGotchi\<close> followed by \<^verbatim>\<open>loadGotchi\<close>
  returns the saved state and the service reports memory-only mode. A state that was still
  pending is kept as well: both the debounce callback (which, on a
  \<^verbatim>\<open>QuotaExceededError\<close>, prunes and retries first) and an explicit flush end in
  memory-only mode with the pending state in the mirror, where \<^verbatim>\<open>loadGotchi\<close> finds it.
\<close>

theorem memory_fallback:
  assumes "rejects_all B"
  shows "fst (loadGotchi B (saveGotchi B s st)) = Some s \<and>
         isMemoryOnlyMode (snd (loadGotchi B (saveGotchi B s st))) \<and>
         (truthy_opt (pendingGotchiState st) \<longrightarrow>
            isMemoryOnlyMode (gotchiSaveTimer_callback B st) \<and>
            fst (loadGotchi B (gotchiSaveTimer_callback B st)) = pendingGotchiState st \<and>
            isMemoryOnlyMode (flushGotchiState B st) \<and>
            fst (loadGotchi B (flushGotchiState B st)) = pendingGotchiState st)"
proof -
  have save: "fst (loadGotchi B (saveGotchi B s st)) = Some s"
    "isMemoryOnlyMode (snd (loadGotchi B (saveGotchi B s st)))"
    using assms
    by (simp_all add: saveGotchi_def loadGotchi_def probe_rejects_all Let_def isMemoryOnlyMode_def)
  have flush: "isMemoryOnlyMode (flushGotchiState B st) \<and>
      fst (loadGotchi B (flushGotchiState B st)) = pendingGotchiState st"
    if "truthy_opt (pendingGotchiState st)"
    using assms that
    by (simp add: flushGotchiState_def loadGotchi_def probe_rejects_all Let_def isMemoryOnlyMode_def)
  have timer: "isMemoryOnlyMode (gotchiSaveTimer_callback B st) \<and>
      fst (loadGotchi B (gotchiSaveTimer_callback B st)) = pendingGotchiState st"
    if t: "truthy_opt (pendingGotchiState st)"
  proof -
    let ?st0 = "st\<lparr>gotchiSaveTimer := False\<rparr>"
    obtain e where e: "setItem B GOTCHI_KEY (JSON_stringify (the (pendingGotchiState ?st0))) ?st0 = Inl e"
      using setItem_rejects_all [OF assms] by blast
    let ?st1 = "pruneOldData B ?st0"
    obtain e' where e': "setItem B GOTCHI_KEY (JSON_stringify (the (pendingGotchiState ?st1))) ?st1 = Inl e'"
      using setItem_rejects_all [OF assms] by blast
    show ?thesis
      using t e e' pruneOldData_rejects_all [OF assms, of ?st0]
      by (cases e) (simp_all add: gotchiSaveTimer_callback_def Let_def loadGotchi_def isMemoryOnlyMode_def)
  qed
  show ?thesis using save flush timer by blast
qed

theorem memory_fallback_witness:
  "rejects_all browser_full \<and> truthy_opt (pendingGotchiState debouncing) \<and>
   fst (loadGotchi browser_full (saveGotchi browser_full gotchi1 (initial []))) = Some gotchi1 \<and>
   isMemoryOnlyMode (snd (loadGotchi browser_full (saveGotchi browser_full gotchi1 (initial [])))) \<and>
   isMemoryOnlyMode (gotchiSaveTimer_callback browser_full debouncing) \<and>
   fst (loadGotchi browser_full (gotchiSaveTimer_callback browser_full debouncing)) = Some gotchi1"
proof -
  have r: "rejects_all browser_full" by (simp add: rejects_all_def browser_full_def)
  have t: "truthy_opt (pendingGotchiState debouncing)"
    by (simp add: debouncing_def initial_def gotchi1_def)
  have p: "pendingGotchiState debouncing = Some gotchi1"
    by (simp add: debouncing_def initial_def)
  show ?thesis
    using memory_fallback [OF r, of gotchi1 "initial []"] memory_fallback [OF r, of gotchi1 debouncing] r t p
    by simp
qed

subsection \<open>C9: the most recent records\<close>

text \<open>
  Whenever a history is read (memory-only mode, or the probe write accepted), the result is
  \<^verbatim>\<open>slice(-limit)\<close> of what the store holds: for a positive limit these are the last
  \<open>limit\<close> records, or all of them when there are fewer, oldest first.
\<close>

lemma getFeedingHistory_slice:
  assumes "memoryOnlyMode st \<or> B (localStorage st) testKey ''test'' = None"
  shows "fst (getFeedingHistory B limit st) = slice_neg (storedFeedingHistory st) limit"
proof (cases "memoryOnlyMode st")
  case True
  then show ?thesis by (simp add: loads_memory storedFeedingHistory_def)
next
  case False
  with assms have "B (localStorage st) testKey ''test'' = None" by simp
  with False show ?thesis
    by (simp add: getFeedingHistory_available storedFeedingHistory_def Let_def slice_neg_def
        split: option.splits jsval.splits)
qed

lemma getExpressions_slice:
  assumes "memoryOnlyMode st \<or> B (localStorage st) testKey ''test'' = None"
  shows "fst (getExpressions B limit st) = slice_neg (storedExpressions st) limit"
proof (cases "memoryOnlyMode st")
  case True
  then show ?thesis by (simp add: loads_memory storedExpressions_def)
next
  case False
  with assms have "B (localStorage st) testKey ''test'' = None" by simp
  with False show ?thesis
    by (simp add: getExpressions_available storedExpressions_def Let_def slice_neg_def
        split: option.splits jsval.splits)
qed

lemma slice_neg_positive:
  "0 < limit \<Longrightarrow> slice_neg xs limit = drop (length xs - limit) xs \<and>
     length (slice_neg xs limit) = min limit (length xs)"
  by (auto simp add: slice_neg_def)

text \<open>
  C9 at limit 0. The claim promises at most \<open>limit\<close> records for limit 0 as well, that is
  none. The code computes \<^verbatim>\<open>history.slice(-0)\<close>, which is \<^verbatim>\<open>history.slice(0)\<close>: with
  three feeding records and two expressions stored, a request for 0 of them returns all
  three and both, in \<^verbatim>\<open>localStorage\<close> and in memory-only mode alike.
\<close>

theorem limit_zero_returns_everything:
  "fst (getFeedingHistory browser_ok 0 stocked) = [feed ''f1'', feed ''f2'', feed ''f3''] \<and>
   fst (getExpressions browser_ok 0 stocked) = [art ''a1'', art ''a2''] \<and>
   fst (getFeedingHistory browser_ok 0 in_memory) = [feed ''a'', feed ''b'']"
proof -
  have "fst (getFeedingHistory browser_ok 0 stocked) = [feed ''f1'', feed ''f2'', feed ''f3'']"
    by (simp add: getFeedingHistory_available stocked_def initial_def browser_ok_def getItem_def
        slice_neg_def)
  moreover have "fst (getExpressions browser_ok 0 stocked) = [art ''a1'', art ''a2'']"
    by (simp add: getExpressions_available stocked_def initial_def browser_ok_def getItem_def
        slice_neg_def)
  moreover have "fst (getFeedingHistory browser_ok 0 in_memory) = [feed ''a'', feed ''b'']"
    by (simp add: loads_memory in_memory_def initial_def slice_neg_def)
  ultimately show ?thesis by simp
qed

subsection \<open>C10: the size of a memory-only session\<close>

text \<open>
  C10. In memory-only mode \<^verbatim>\<open>checkStorageSize\<close> returns 0, whatever the memory mirror
  (and whatever \<^verbatim>\<open>localStorage\<close>) holds.
\<close>

theorem checkStorageSize_memoryOnly:
  "memoryOnlyMode st \<Longrightarrow> fst (checkStorageSize B st) = 0"
  by (simp add: checkStorageSize_def)

theorem checkStorageSize_memoryOnly_witness:
  "memoryOnlyMode in_memory \<and> feedingHistory (memoryStorage in_memory) \<noteq> [] \<and>
   fst (checkStorageSize browser_ok in_memory) = 0"
  using checkStorageSize_memoryOnly [of in_memory browser_ok]
  by (simp add: in_memory_def initial_def)

end
